theory Spec2Isabelle
  imports Complex_Main "HOL-Library.Word" "HOL-Library.Signed_Division"
begin

unbundle bit_operations_syntax

section \<open>DeckLinkFrameHelper.cpp: data model\<close>

text \<open>
  The file is compiled for 64-bit Windows: \<open>int\<close>, \<open>long\<close> and \<open>HRESULT\<close> are 32-bit
  two's complement values, pointers, \<open>uintptr_t\<close> and \<open>size_t\<close> are 64-bit. Arithmetic on
  them wraps around; \<open>sint\<close> reads the signed value, \<open><s\<close> and \<open><=s\<close> compare signed.
\<close>

type_synonym byte = "8 word"
type_synonym int32 = "32 word"
type_synonym addr = "64 word"

text \<open>Memory seen from the destination pointer: the byte at \<open>buffer + i\<close>, for every
  signed offset \<open>i\<close>. The caller owns the offsets \<open>0 ..< bufferSize\<close>; the others are
  whatever lies next to the buffer.\<close>

type_synonym memory = "int \<Rightarrow> byte"

definition SUCCEEDED :: "int32 \<Rightarrow> bool" where
  "SUCCEEDED hr \<longleftrightarrow> 0 <=s hr"

definition FAILED :: "int32 \<Rightarrow> bool" where
  "FAILED hr \<longleftrightarrow> hr <s 0"

text \<open>The interface identifiers the code queries.\<close>

datatype iid =
    IID_IUnknown
  | IID_IDeckLinkVideoFrame
  | IID_IDeckLinkVideoInputFrame
  | IID_IDeckLinkVideoBuffer
  | IID_IDeckLinkVideoInputFrame_v14_2_1

text \<open>
  The foreign frame object, as it answers during one call. An indexed accessor that
  raises a hardware fault is \<open>None\<close>. \<open>QueryInterface\<close> gives the \<open>HRESULT\<close> and the
  pointer it stores. \<open>offset280\<close> is the pointer-sized value stored 280 bytes into the
  object. \<open>contents\<close> is the byte at an address of the process. \<open>copy_stops src n\<close>
  tells how a \<open>memcpy\<close> of \<open>n\<close> bytes reading from \<open>src\<close> ends: \<open>None\<close> when it
  completes, \<open>Some j\<close> when an access violation is raised after \<open>j\<close> bytes were stored
  (a copy of no bytes touches no memory and always completes).
  \<open>log_read_faults\<close> tells whether the log block of the IDeckLinkVideoBuffer path
  (lines 262-272, inside the \<open>__try\<close> block) runs on this call and its read of
  \<open>buffer[midOffset]\<close> raises an access violation; the frame counter that decides
  whether the block runs is process-wide state.
  \<open>QueryInterface\<close>, \<open>AddRef\<close> and \<open>Release\<close> stand outside every \<open>__try\<close> block of
  the source and are taken to return. The source ignores what \<open>EndAccess\<close> returns,
  and a fault inside it is caught with the result already decided, so the object has
  no field for it.
\<close>

record frame =
  QueryInterface :: "iid \<Rightarrow> int32 \<times> addr"
  getWidth :: "int32 option"
  getHeight :: "int32 option"
  getRowBytes :: "int32 option"
  getPixelFormat :: "int32 option"
  getFlags :: "int32 option"
  startAccess :: "int32 option"
  getBytes :: "(int32 \<times> addr) option"
  legacyGetBytes :: "(int32 \<times> addr) option"
  offset280 :: addr
  contents :: "addr \<Rightarrow> byte"
  copy_stops :: "addr \<Rightarrow> nat \<Rightarrow> nat option"
  log_read_faults :: bool

text \<open>What a call does to the world, in program order.\<close>

datatype event =
    QI iid
  | ReleaseInterface iid
  | GetWidth | GetHeight | GetRowBytes | GetPixelFormat | GetFlags
  | StartAccess | GetBytes | EndAccess | LegacyGetBytes
  | AddRef | ReadOffset280 | Release
  | Detector

text \<open>
  The state a call threads through: the destination memory, the offsets of it that were
  stored to, the offsets the corruption detector read, and the events so far.
  \<open>DebugLog\<close>, the one-shot \<open>logged...\<close> flags and the frame counters only feed the
  log file and are left out. The log blocks read the destination: a fault of the block
  inside the \<open>__try\<close> of the IDeckLinkVideoBuffer path is \<open>log_read_faults\<close>; a
  fault of the block of the legacy path (lines 329-339) is caught with \<open>result\<close>
  already 1 and changes nothing; the reads of the block of the fallback (lines 436-559)
  and of the detector stand outside every \<open>__try\<close> block and are taken not to fault
  (destination memory is total), the offsets the detector reads being recorded.
\<close>

record state =
  dest :: memory
  stored :: "int set"
  probed :: "int set"
  events :: "event list"

definition emit :: "event \<Rightarrow> state \<Rightarrow> state" where
  "emit e s = s\<lparr>events := events s @ [e]\<rparr>"

definition store :: "int \<Rightarrow> byte \<Rightarrow> state \<Rightarrow> state" where
  "store i v s = s\<lparr>dest := (dest s)(i := v), stored := insert i (stored s)\<rparr>"

text \<open>
  \<open>memcpy(buffer + off, src, n)\<close> inside a \<open>__try\<close> block. The flag tells whether the
  copy completed; when it faulted, the bytes stored before the fault stay stored.
\<close>

definition copied_length :: "frame \<Rightarrow> addr \<Rightarrow> addr \<Rightarrow> nat" where
  "copied_length f src n =
     (case copy_stops f src (unat n) of None \<Rightarrow> unat n | Some j \<Rightarrow> min j (unat n))"

definition memcpy :: "frame \<Rightarrow> int \<Rightarrow> addr \<Rightarrow> addr \<Rightarrow> state \<Rightarrow> bool \<times> state" where
  "memcpy f off src n s =
     (unat n = 0 \<or> copy_stops f src (unat n) = None,
      s\<lparr>dest := (\<lambda>i. if off \<le> i \<and> i < off + int (copied_length f src n)
                      then contents f (src + word_of_int (i - off)) else dest s i),
        stored := stored s \<union> {off ..< off + int (copied_length f src n)}\<rparr>)"

section \<open>The corruption detector\<close>

text \<open>C's \<open>/\<close> and \<open>%\<close> on \<open>int\<close> truncate towards zero. A zero divisor traps; the
  callers below check it before they divide.\<close>

definition c_div :: "int32 \<Rightarrow> int32 \<Rightarrow> int32" where
  "c_div a b = word_of_int (sint a sdiv sint b)"

definition c_rem :: "int32 \<Rightarrow> int32 \<Rightarrow> int32" where
  "c_rem a b = word_of_int (sint a smod sint b)"

text \<open>\<open>UpdateStats\<close> (lines 68-75). The \<open>double\<close>s of the source are real numbers
  here: the rounding of IEEE arithmetic is not modelled.\<close>

definition UpdateStats :: "byte \<Rightarrow> real \<times> real \<Rightarrow> nat \<Rightarrow> real \<times> real" where
  "UpdateStats v ms i =
     (let x = real (unat v);
          delta = x - fst ms;
          mean = fst ms + delta / real (i + 1);
          delta2 = x - mean
      in (mean, snd ms + delta * delta2))"

definition samples :: nat where
  "samples = 2048"

text \<open>The byte offset of sample \<open>i\<close> (lines 83, 92-96).\<close>

definition sample_offset :: "int32 \<Rightarrow> int32 \<Rightarrow> int32 \<Rightarrow> nat \<Rightarrow> int32" where
  "sample_offset width height rowBytes i =
     (let widthBytes = width * 2;
          y = c_rem (of_nat i * 131) height;
          x = c_rem (of_nat i * 337) (widthBytes - 4) AND NOT 3
      in y * rowBytes + x)"

text \<open>The offsets \<open>p[offset + 0 .. offset + 3]\<close> read over all samples.\<close>

definition sample_reads :: "int32 \<Rightarrow> int32 \<Rightarrow> int32 \<Rightarrow> int set" where
  "sample_reads width height rowBytes =
     (\<Union>i \<in> {0 ..< samples}. \<Union>k \<in> {0, 1, 2, 3}.
        {sint (sample_offset width height rowBytes i + k)})"

record lanes =
  c0FF :: nat
  c1FF :: nat
  c2FF :: nat
  c3FF :: nat
  st0 :: "real \<times> real"
  st1 :: "real \<times> real"
  st2 :: "real \<times> real"
  st3 :: "real \<times> real"

definition lanes0 :: lanes where
  "lanes0 = \<lparr>c0FF = 0, c1FF = 0, c2FF = 0, c3FF = 0,
             st0 = (0, 0), st1 = (0, 0), st2 = (0, 0), st3 = (0, 0)\<rparr>"

text \<open>One iteration of the sampling loop (lines 92-111).\<close>

definition sample_step :: "memory \<Rightarrow> int32 \<Rightarrow> int32 \<Rightarrow> int32 \<Rightarrow> nat \<Rightarrow> lanes \<Rightarrow> lanes" where
  "sample_step p width height rowBytes i a =
     (let offset = sample_offset width height rowBytes i;
          b0 = p (sint (offset + 0));
          b1 = p (sint (offset + 1));
          b2 = p (sint (offset + 2));
          b3 = p (sint (offset + 3))
      in \<lparr>c0FF = (if b0 = 0xFF then c0FF a + 1 else c0FF a),
          c1FF = (if b1 = 0xFF then c1FF a + 1 else c1FF a),
          c2FF = (if b2 = 0xFF then c2FF a + 1 else c2FF a),
          c3FF = (if b3 = 0xFF then c3FF a + 1 else c3FF a),
          st0 = UpdateStats b0 (st0 a) i,
          st1 = UpdateStats b1 (st1 a) i,
          st2 = UpdateStats b2 (st2 a) i,
          st3 = UpdateStats b3 (st3 a) i\<rparr>)"

text \<open>The verdict from the accumulated lanes (lines 114-136).\<close>

definition verdict :: "lanes \<Rightarrow> bool" where
  "verdict a =
     (let p0 = real (c0FF a) / real samples;
          p1 = real (c1FF a) / real samples;
          p2 = real (c2FF a) / real samples;
          p3 = real (c3FF a) / real samples;
          maxOther0 = (if p0 > p1 then p0 else p1);
          maxOther = (if p2 > maxOther0 then p2 else maxOther0);
          alphaBias = p3 - maxOther;
          var0 = snd (st0 a) / real (samples - 1);
          var1 = snd (st1 a) / real (samples - 1);
          var2 = snd (st2 a) / real (samples - 1);
          var3 = snd (st3 a) / real (samples - 1);
          varY = var1 + var3;
          varUV = var0 + var2;
          suspiciousAlpha = ((p3 > 0.20 \<and> alphaBias > 0.10) \<or> p3 > 0.35);
          suspiciousVariance = ((var3 < 50.0 \<and> p3 > 0.10) \<or> varY < varUV * 0.8)
      in suspiciousAlpha \<or> suspiciousVariance)"

text \<open>The sampling loop (lines 90-112) as a whole.\<close>

definition accumulate :: "memory \<Rightarrow> int32 \<Rightarrow> int32 \<Rightarrow> int32 \<Rightarrow> lanes" where
  "accumulate p width height rowBytes =
     fold (sample_step p width height rowBytes) [0 ..< samples] lanes0"

text \<open>
  \<open>LooksLikeCorruptBGRA\<close> (lines 79-137). The loop runs \<open>samples\<close> times and every
  iteration evaluates \<open>% height\<close> and \<open>% (widthBytes - 4)\<close>, so the call traps on its
  first iteration exactly when one of the two divisors is zero: that is \<open>None\<close>.
\<close>

definition LooksLikeCorruptBGRA :: "memory \<Rightarrow> int32 \<Rightarrow> int32 \<Rightarrow> int32 \<Rightarrow> bool option" where
  "LooksLikeCorruptBGRA p width height rowBytes =
     (if height = 0 \<or> width * 2 - 4 = 0 then None
      else Some (verdict (accumulate p width height rowBytes)))"

section \<open>CopyDeckLinkFrameBytes\<close>

text \<open>How a call can end without returning: the chunk loop never exits, or the
  detector divides by zero outside every \<open>__try\<close> block.\<close>

datatype abnormal = NoReturn | DivideByZero

text \<open>Lines 167-175 and 178-186: query an interface and release it when a pointer
  came back.\<close>

definition probe :: "frame \<Rightarrow> iid \<Rightarrow> state \<Rightarrow> state" where
  "probe f i s =
     (let s1 = emit (QI i) s
      in if snd (QueryInterface f i) \<noteq> 0 then emit (ReleaseInterface i) s1 else s1)"

text \<open>Lines 198-211: the four accessors inside one \<open>__try\<close> block. \<open>None\<close> is the
  handler's \<open>return 0\<close>; otherwise width, height and rowBytes (the pixel format only
  feeds the log).\<close>

definition read_geometry :: "frame \<Rightarrow> state \<Rightarrow> (int32 \<times> int32 \<times> int32) option \<times> state" where
  "read_geometry f s =
     (let s1 = emit GetWidth s in
      case getWidth f of
        None \<Rightarrow> (None, s1)
      | Some width \<Rightarrow>
          (let s2 = emit GetHeight s1 in
           case getHeight f of
             None \<Rightarrow> (None, s2)
           | Some height \<Rightarrow>
               (let s3 = emit GetRowBytes s2 in
                case getRowBytes f of
                  None \<Rightarrow> (None, s3)
                | Some rowBytes \<Rightarrow>
                    (let s4 = emit GetPixelFormat s3 in
                     case getPixelFormat f of
                       None \<Rightarrow> (None, s4)
                     | Some pixelFormat \<Rightarrow> (Some (width, height, rowBytes), s4)))))"

definition copySize :: "int32 \<Rightarrow> int32 \<Rightarrow> int32 \<Rightarrow> int32" where
  "copySize bufferSize rowBytes height =
     (if bufferSize <s rowBytes * height then bufferSize else rowBytes * height)"

text \<open>Lines 247-289: the \<open>__try\<close> block of the IDeckLinkVideoBuffer path. The result
  is the variable \<open>result\<close>. A fault in \<open>startAccess\<close>, \<open>getBytes\<close>, \<open>memcpy\<close> or
  the log block jumps to the handler, which only logs; for the log block \<open>result\<close> is
  already 1.\<close>

definition video_buffer_access :: "frame \<Rightarrow> int32 \<Rightarrow> int32 \<Rightarrow> int32 \<Rightarrow> state \<Rightarrow> int32 \<times> state" where
  "video_buffer_access f bufferSize rowBytes height s =
     (let s1 = emit StartAccess s in
      case startAccess f of
        None \<Rightarrow> (0, s1)
      | Some hr \<Rightarrow>
          if SUCCEEDED hr then
            (let s2 = emit GetBytes s1 in
             case getBytes f of
               None \<Rightarrow> (0, s2)
             | Some (hr', srcPtr) \<Rightarrow>
                 if SUCCEEDED hr' \<and> srcPtr \<noteq> 0 then
                   (case memcpy f 0 srcPtr (scast (copySize bufferSize rowBytes height)) s2 of
                      (True, s3) \<Rightarrow>
                        if log_read_faults f then (1, s3) else (1, emit EndAccess s3)
                    | (False, s3) \<Rightarrow> (0, s3))
                 else (0, emit EndAccess s2))
          else (0, s1))"

text \<open>Lines 317-349: the \<open>__try\<close> block of the legacy v14.2.1 path.\<close>

definition legacy_access :: "frame \<Rightarrow> int32 \<Rightarrow> int32 \<Rightarrow> int32 \<Rightarrow> state \<Rightarrow> int32 \<times> state" where
  "legacy_access f bufferSize rowBytes height s =
     (let s1 = emit LegacyGetBytes s in
      case legacyGetBytes f of
        None \<Rightarrow> (0, s1)
      | Some (hrGB, srcPtr) \<Rightarrow>
          if SUCCEEDED hrGB \<and> srcPtr \<noteq> 0 then
            (case memcpy f 0 srcPtr (scast (copySize bufferSize rowBytes height)) s1 of
               (True, s2) \<Rightarrow> (1, s2)
             | (False, s2) \<Rightarrow> (0, s2))
          else (0, s1))"

subsection \<open>The raw-offset fallback\<close>

definition chunkSize :: int32 where
  "chunkSize = 65536"

text \<open>Lines 413-420: the fill loop of a faulted chunk, \<open>fillPtr = dst + pos\<close>. The
  index \<open>i\<close> is an \<open>int\<close> that stays below \<open>thisChunk + 4\<close>, and \<open>thisChunk\<close> is at most
  \<open>chunkSize\<close> where the loop is reached (\<open>thisChunk_bounds\<close> below), so \<open>i += 4\<close>
  never wraps and the index is modelled without a width.\<close>

function fill_black :: "int \<Rightarrow> int \<Rightarrow> int \<Rightarrow> state \<Rightarrow> state" where
  "fill_black fillPtr i thisChunk s =
     (if i < thisChunk
      then fill_black fillPtr (i + 4) thisChunk
             (store (fillPtr + i + 3) 0x10
               (store (fillPtr + i + 2) 0x80
                 (store (fillPtr + i + 1) 0x10
                   (store (fillPtr + i) 0x80 s))))
      else s)"
  by pat_completeness auto
termination
  by (relation "measure (\<lambda>(fillPtr, i, thisChunk, s). nat (thisChunk - i))") auto

definition thisChunk :: "int32 \<Rightarrow> int32 \<Rightarrow> int32" where
  "thisChunk pos bufferSize =
     (if pos + chunkSize <=s bufferSize then chunkSize else bufferSize - pos)"

text \<open>Lines 403-421: one iteration of the chunked copy, from \<open>bytesCopied\<close> and the
  state to the same after it.\<close>

definition chunk_body ::
  "frame \<Rightarrow> addr \<Rightarrow> int32 \<Rightarrow> int32 \<Rightarrow> int32 \<Rightarrow> state \<Rightarrow> int32 \<times> state" where
  "chunk_body f src bufferSize pos bytesCopied s =
     (case memcpy f (sint pos) (src + scast pos) (scast (thisChunk pos bufferSize)) s of
        (True, s1) \<Rightarrow> (bytesCopied + thisChunk pos bufferSize, s1)
      | (False, s1) \<Rightarrow> (bytesCopied, fill_black (sint pos) 0 (sint (thisChunk pos bufferSize)) s1))"

text \<open>Lines 401-422: the chunked copy. With wrap-around arithmetic the loop does not
  exit for every \<open>bufferSize\<close>, so not returning is the value \<open>None\<close>.\<close>

partial_function (option) chunk_loop ::
  "frame \<Rightarrow> addr \<Rightarrow> int32 \<Rightarrow> int32 \<Rightarrow> int32 \<Rightarrow> state \<Rightarrow> (int32 \<times> state) option" where
  "chunk_loop f src bufferSize pos bytesCopied s =
     (if pos <s bufferSize then
        chunk_loop f src bufferSize (pos + chunkSize)
          (fst (chunk_body f src bufferSize pos bytesCopied s))
          (snd (chunk_body f src bufferSize pos bytesCopied s))
      else Some (bytesCopied, s))"

text \<open>Lines 385-423: the bulk copy and, when it faults, the chunked copy. The result
  is \<open>bytesCopied\<close> and the state.\<close>

definition raw_copy :: "frame \<Rightarrow> addr \<Rightarrow> int32 \<Rightarrow> state \<Rightarrow> (int32 \<times> state) option" where
  "raw_copy f src bufferSize s =
     (case memcpy f 0 src (scast bufferSize) s of
        (True, s1) \<Rightarrow> Some (bufferSize, s1)
      | (False, s1) \<Rightarrow> chunk_loop f src bufferSize 0 0 s1)"

text \<open>Lines 428-433 and 561-568: the detector, the release and the verdict.\<close>

definition finish ::
  "int32 \<Rightarrow> int32 \<Rightarrow> int32 \<Rightarrow> int32 \<Rightarrow> int32 \<Rightarrow> state \<Rightarrow> abnormal + (int32 \<times> state)" where
  "finish bufferSize width height rowBytes bytesCopied s =
     (if c_div bufferSize 2 <s bytesCopied then
        (case LooksLikeCorruptBGRA (dest s) width height rowBytes of
           None \<Rightarrow> Inl DivideByZero
         | Some isCorrupt \<Rightarrow>
             Inr (if isCorrupt then - 1 else 1,
                  emit Release
                    ((emit Detector s)\<lparr>probed := probed s \<union> sample_reads width height rowBytes\<rparr>)))
      else Inr (0, emit Release s))"

text \<open>Lines 359-569.\<close>

definition RawOffsetFallback ::
  "frame \<Rightarrow> int32 \<Rightarrow> int32 \<Rightarrow> int32 \<Rightarrow> int32 \<Rightarrow> state \<Rightarrow> abnormal + (int32 \<times> state)" where
  "RawOffsetFallback f bufferSize width height rowBytes s =
     (let s1 = emit AddRef s;
          s2 = emit ReadOffset280 s1;
          ptr = offset280 f
      in if ptr = 0 then Inr (0, emit Release s2)
         else if ptr < 0x10000 \<or> ptr \<ge> 0x7FFF00000000 then Inr (0, emit Release s2)
         else
           (case raw_copy f ptr bufferSize s2 of
              None \<Rightarrow> Inl NoReturn
            | Some (bytesCopied, s3) \<Rightarrow> finish bufferSize width height rowBytes bytesCopied s3))"

text \<open>Lines 296-353, entered when the IDeckLinkVideoBuffer path did not return.\<close>

definition LegacyThenFallback ::
  "frame \<Rightarrow> int32 \<Rightarrow> int32 \<Rightarrow> int32 \<Rightarrow> int32 \<Rightarrow> state \<Rightarrow> abnormal + (int32 \<times> state)" where
  "LegacyThenFallback f bufferSize width height rowBytes s =
     (let s1 = emit (QI IID_IDeckLinkVideoInputFrame_v14_2_1) s;
          (hrLegacy, legacyFrame) = QueryInterface f IID_IDeckLinkVideoInputFrame_v14_2_1
      in if SUCCEEDED hrLegacy \<and> legacyFrame \<noteq> 0 then
           (case legacy_access f bufferSize rowBytes height s1 of (result, s2) \<Rightarrow>
              (let s3 = emit (ReleaseInterface IID_IDeckLinkVideoInputFrame_v14_2_1) s2
               in if result = 1 then Inr (result, s3)
                  else RawOffsetFallback f bufferSize width height rowBytes s3))
         else RawOffsetFallback f bufferSize width height rowBytes s1)"

text \<open>Lines 141-569. \<open>framePtr\<close> and \<open>buffer\<close> are the pointer values passed; \<open>f\<close> is
  the object \<open>framePtr\<close> points to and \<open>s\<close> the state at entry.\<close>

definition CopyDeckLinkFrameBytes ::
  "frame \<Rightarrow> addr \<Rightarrow> addr \<Rightarrow> int32 \<Rightarrow> state \<Rightarrow> abnormal + (int32 \<times> state)" where
  "CopyDeckLinkFrameBytes f framePtr buffer bufferSize s =
     (if framePtr = 0 \<or> buffer = 0 \<or> bufferSize <=s 0 then Inr (0, s)
      else
        (let s1 = emit (QI IID_IUnknown) s;
             (hrTest, testUnk) = QueryInterface f IID_IUnknown
         in if FAILED hrTest \<or> testUnk = 0 then Inr (0, s1)
            else
              (let s2 = emit (ReleaseInterface IID_IUnknown) s1;
                   s3 = probe f IID_IDeckLinkVideoFrame s2;
                   s4 = probe f IID_IDeckLinkVideoInputFrame s3
               in case read_geometry f s4 of
                    (None, s5) \<Rightarrow> Inr (0, s5)
                  | (Some (width, height, rowBytes), s5) \<Rightarrow>
                      (let s6 = emit (QI IID_IDeckLinkVideoBuffer) s5;
                           (hr, videoBuffer) = QueryInterface f IID_IDeckLinkVideoBuffer
                       in if SUCCEEDED hr \<and> videoBuffer \<noteq> 0 then
                            (case video_buffer_access f bufferSize rowBytes height s6 of
                               (result, s7) \<Rightarrow>
                                 (let s8 = emit (ReleaseInterface IID_IDeckLinkVideoBuffer) s7
                                  in if result = 1 then Inr (result, s8)
                                     else LegacyThenFallback f bufferSize width height rowBytes s8))
                          else LegacyThenFallback f bufferSize width height rowBytes s6))))"

section \<open>GetDeckLinkFrameInfo\<close>

text \<open>The four output pointers: \<open>None\<close> is a null pointer, \<open>Some v\<close> a pointer to a
  cell that holds \<open>v\<close>.\<close>

record outputs =
  width_out :: "int32 option"
  height_out :: "int32 option"
  rowBytes_out :: "int32 option"
  flags_out :: "int32 option"

text \<open>One line of the \<open>__try\<close> block, \<open>if (out) *out = accessor(unknown)\<close>: for a null
  pointer the accessor is not called; \<open>None\<close> is a fault raised by the accessor, before
  anything is assigned.\<close>

definition fetch :: "int32 option \<Rightarrow> int32 option \<Rightarrow> int32 option option" where
  "fetch cell accessor =
     (case cell of
        None \<Rightarrow> Some None
      | Some old \<Rightarrow> (case accessor of None \<Rightarrow> None | Some v \<Rightarrow> Some (Some v)))"

text \<open>Lines 571-594. A fault jumps to the handler's \<open>return 0\<close> with the cells as they
  are by then. The read of the vtable pointer (line 577) stands outside the \<open>__try\<close>
  block and is taken to succeed for a non-null \<open>framePtr\<close>.\<close>

definition GetDeckLinkFrameInfo :: "frame \<Rightarrow> addr \<Rightarrow> outputs \<Rightarrow> int32 \<times> outputs" where
  "GetDeckLinkFrameInfo f framePtr out =
     (if framePtr = 0 then (0, out)
      else
        (case fetch (width_out out) (getWidth f) of
           None \<Rightarrow> (0, out)
         | Some w \<Rightarrow>
             (let out1 = out\<lparr>width_out := w\<rparr> in
              case fetch (height_out out1) (getHeight f) of
                None \<Rightarrow> (0, out1)
              | Some h \<Rightarrow>
                  (let out2 = out1\<lparr>height_out := h\<rparr> in
                   case fetch (rowBytes_out out2) (getRowBytes f) of
                     None \<Rightarrow> (0, out2)
                   | Some r \<Rightarrow>
                       (let out3 = out2\<lparr>rowBytes_out := r\<rparr> in
                        case fetch (flags_out out3) (getFlags f) of
                          None \<Rightarrow> (0, out3)
                        | Some g \<Rightarrow> (1, out3\<lparr>flags_out := g\<rparr>))))))"

section \<open>Notions used in the statements\<close>

text \<open>The position of chunk \<open>k\<close> of the chunked copy (the value of \<open>pos\<close> in iteration
  \<open>k\<close>), and whether the copy of that chunk faults.\<close>

definition chunk_pos :: "nat \<Rightarrow> int32" where
  "chunk_pos k = of_nat k * chunkSize"

definition chunk_faults :: "frame \<Rightarrow> addr \<Rightarrow> int32 \<Rightarrow> nat \<Rightarrow> bool" where
  "chunk_faults f src bufferSize k \<longleftrightarrow>
     copy_stops f (src + scast (chunk_pos k))
       (unat (scast (thisChunk (chunk_pos k) bufferSize) :: addr)) \<noteq> None"

text \<open>The byte of the UYVY black pattern \<open>80 10 80 10\<close> at offset \<open>r\<close>.\<close>

definition neutral :: "int \<Rightarrow> byte" where
  "neutral r = [0x80, 0x10, 0x80, 0x10] ! nat (r mod 4)"

text \<open>Where the fill loop started at index \<open>i\<close> stops: \<open>i\<close> plus the chunk's remaining
  length rounded up to a multiple of 4.\<close>

definition fill_end :: "int \<Rightarrow> int \<Rightarrow> int" where
  "fill_end i n = (if i < n then i + 4 * ((n - i + 3) div 4) else i)"

text \<open>The bytes the chunk loop still has to visit at \<open>pos\<close>.\<close>

definition remaining :: "int32 \<Rightarrow> int32 \<Rightarrow> int32" where
  "remaining bufferSize pos = (if pos <s bufferSize then bufferSize - pos else 0)"

text \<open>The return value and the final state of a call that returned.\<close>

definition result_of :: "abnormal + (int32 \<times> state) \<Rightarrow> int32 option" where
  "result_of x = (case x of Inl a \<Rightarrow> None | Inr (r, s) \<Rightarrow> Some r)"

definition state_of :: "abnormal + (int32 \<times> state) \<Rightarrow> state option" where
  "state_of x = (case x of Inl a \<Rightarrow> None | Inr (r, s) \<Rightarrow> Some s)"

text \<open>Events that belong to the raw-offset fallback only.\<close>

definition quiet :: "event list \<Rightarrow> bool" where
  "quiet es \<longleftrightarrow> set es \<inter> {AddRef, ReadOffset280, Release, Detector} = {}"

text \<open>\<open>n\<close> rounded up to a multiple of 4.\<close>

definition round4 :: "int \<Rightarrow> int" where
  "round4 n = 4 * ((n + 3) div 4)"

text \<open>From \<open>s\<close> to \<open>s'\<close> only events outside the raw-offset fallback were added, the
  detector did not run, and every offset stored to lies in \<open>E\<close>.\<close>

definition advances :: "state \<Rightarrow> int set \<Rightarrow> state \<Rightarrow> bool" where
  "advances s E s' \<longleftrightarrow>
     (\<exists>es. events s' = events s @ es \<and> quiet es) \<and> probed s' = probed s \<and>
     stored s' \<subseteq> stored s \<union> E"

text \<open>The events a call added to those of the state at entry.\<close>

definition new_events :: "state \<Rightarrow> state \<Rightarrow> event list" where
  "new_events s s' = drop (length (events s)) (events s')"

text \<open>An accessor of \<open>GetDeckLinkFrameInfo\<close> is called (its output pointer is not
  null) and faults.\<close>

definition accessor_faults :: "int32 option \<Rightarrow> int32 option \<Rightarrow> bool" where
  "accessor_faults cell accessor \<longleftrightarrow> cell \<noteq> None \<and> accessor = None"

section \<open>Concrete inputs\<close>

text \<open>A state at entry, and a frame that offers no interface but IUnknown, answers its
  accessors with a 1920 x 1080 geometry and holds a plausible pointer at offset 280.
  Every copy from it completes.\<close>

definition s0 :: state where
  "s0 = \<lparr>dest = (\<lambda>i. 0), stored = {}, probed = {}, events = []\<rparr>"

definition frame0 :: frame where
  "frame0 =
     \<lparr>QueryInterface = (\<lambda>i. if i = IID_IUnknown then (0, 0x1000) else (0x80004002, 0)),
      getWidth = Some 1920, getHeight = Some 1080, getRowBytes = Some 3840,
      getPixelFormat = Some 0x32767579, getFlags = Some 0,
      startAccess = Some 0x80004005, getBytes = Some (0x80004005, 0),
      legacyGetBytes = Some (0x80004005, 0),
      offset280 = 0x20000,
      contents = (\<lambda>a. 0x55),
      copy_stops = (\<lambda>src n. None),
      log_read_faults = False\<rparr>"

text \<open>The bulk copy of 131078 bytes faults, and so does the copy of chunk 1.\<close>

definition frame_chunk1 :: frame where
  "frame_chunk1 = frame0\<lparr>copy_stops :=
     (\<lambda>src n. if n = 131078 then Some 0 else if src = 0x30000 then Some 100 else None)\<rparr>"

text \<open>The same frame with a null pointer, and with an implausibly low pointer, at
  offset 280.\<close>

definition frame_null :: frame where
  "frame_null = frame0\<lparr>offset280 := 0\<rparr>"

definition frame_low :: frame where
  "frame_low = frame0\<lparr>offset280 := 0x8000\<rparr>"

text \<open>Output cells that all hold 0; a frame whose \<open>GetHeight\<close> faults; and a frame
  that offers IDeckLinkVideoBuffer, whose \<open>StartAccess\<close> and \<open>GetBytes\<close> succeed and
  whose buffer cannot be read, with a null pointer at offset 280.\<close>

definition outputs0 :: outputs where
  "outputs0 = \<lparr>width_out = Some 0, height_out = Some 0, rowBytes_out = Some 0, flags_out = Some 0\<rparr>"

definition frame_height_faults :: frame where
  "frame_height_faults = frame0\<lparr>getHeight := None\<rparr>"

definition frame_copy_faults :: frame where
  "frame_copy_faults = frame0
     \<lparr>QueryInterface := (\<lambda>i. if i = IID_IUnknown \<or> i = IID_IDeckLinkVideoBuffer
                               then (0, 0x1000) else (0x80004002, 0)),
      startAccess := Some 0, getBytes := Some (0, 0x40000), offset280 := 0,
      copy_stops := (\<lambda>src n. if src = 0x40000 then Some 0 else None)\<rparr>"

text \<open>A frame that offers IDeckLinkVideoBuffer and no legacy interface, whose
  \<open>StartAccess\<close> returns \<open>E_FAIL\<close>; the pointer at offset 280 is plausible and every
  copy completes.\<close>

definition frame_modern_only :: frame where
  "frame_modern_only = frame0
     \<lparr>QueryInterface := (\<lambda>i. if i = IID_IUnknown \<or> i = IID_IDeckLinkVideoBuffer
                               then (0, 0x1000) else (0x80004002, 0))\<rparr>"

text \<open>The bulk copy of 131072 bytes faults, chunk 0 is copied and the copy of chunk 1
  faults: exactly half of the bytes are copied.\<close>

definition frame_half :: frame where
  "frame_half = frame0\<lparr>copy_stops :=
     (\<lambda>src n. if n = 131072 then Some 0 else if src = 0x30000 then Some 0 else None)\<rparr>"

text \<open>Every copy from the frame faults at once; and frames with a width of 2 and with
  a height of 0.\<close>

definition frame_fill :: frame where
  "frame_fill = frame0\<lparr>copy_stops := (\<lambda>src n. Some 0)\<rparr>"

definition frame_width2 :: frame where
  "frame_width2 = frame0\<lparr>getWidth := Some 2\<rparr>"

definition frame_height0 :: frame where
  "frame_height0 = frame0\<lparr>getHeight := Some 0\<rparr>"

section \<open>Lemmas\<close>

subsection \<open>State fields and the fill loop\<close>

declare fill_black.simps [simp del]

lemma emit_fields [simp]:
  "dest (emit e s) = dest s" "stored (emit e s) = stored s"
  "probed (emit e s) = probed s" "events (emit e s) = events s @ [e]"
  by (simp_all add: emit_def)

lemma store_fields [simp]:
  "dest (store i v s) = (dest s)(i := v)" "stored (store i v s) = insert i (stored s)"
  "probed (store i v s) = probed s" "events (store i v s) = events s"
  by (simp_all add: store_def)

lemma memcpy_fields [simp]:
  "events (snd (memcpy f off src n s)) = events s"
  "probed (snd (memcpy f off src n s)) = probed s"
  "stored (snd (memcpy f off src n s)) = stored s \<union> {off ..< off + int (copied_length f src n)}"
  "fst (memcpy f off src n s) \<longleftrightarrow> unat n = 0 \<or> copy_stops f src (unat n) = None"
  by (simp_all add: memcpy_def)

lemma memcpy_dest:
  "dest (snd (memcpy f off src n s)) i =
     (if off \<le> i \<and> i < off + int (copied_length f src n)
      then contents f (src + word_of_int (i - off)) else dest s i)"
  by (simp add: memcpy_def)

lemma copied_length_le: "copied_length f src n \<le> unat n"
  by (simp add: copied_length_def split: option.splits)

lemma copied_length_complete:
  "copy_stops f src (unat n) = None \<Longrightarrow> copied_length f src n = unat n"
  by (simp add: copied_length_def)

lemma fill_black_events [simp]: "events (fill_black p i n s) = events s"
  by (induction p i n s rule: fill_black.induct) (subst fill_black.simps, simp)

lemma fill_black_probed [simp]: "probed (fill_black p i n s) = probed s"
  by (induction p i n s rule: fill_black.induct) (subst fill_black.simps, simp)

lemma fill_end_step: "i < n \<Longrightarrow> fill_end (i + 4) n = fill_end i n"
  unfolding fill_end_def by (auto; presburger)

lemma fill_end_ge: "i \<le> fill_end i n"
  unfolding fill_end_def by auto

lemma fill_black_stored:
  "stored (fill_black p i n s) = stored s \<union> {p + i ..< p + fill_end i n}"
proof (induction p i n s rule: fill_black.induct)
  case (1 p i n s)
  show ?case
  proof (cases "i < n")
    case True
    have ge: "i + 4 \<le> fill_end i n"
      using fill_end_ge [of "i + 4" n] fill_end_step [OF True] by simp
    have "{p + i ..< p + fill_end i n} = {p + i, p + i + 1, p + i + 2, p + i + 3} \<union> {p + (i + 4) ..< p + fill_end i n}"
      using ge by auto
    with True 1 show ?thesis
      by (subst fill_black.simps) (auto simp: fill_end_step)
  next
    case False
    then show ?thesis by (subst fill_black.simps) (simp add: fill_end_def)
  qed
qed

lemma neutral_parity: "neutral r = (if even r then 0x80 else 0x10)"
proof -
  have "r mod 4 = 0 \<or> r mod 4 = 1 \<or> r mod 4 = 2 \<or> r mod 4 = 3" by presburger
  moreover have "even r \<longleftrightarrow> r mod 4 = 0 \<or> r mod 4 = 2" by presburger
  ultimately show ?thesis
    by (auto simp: neutral_def)
qed

lemma fill_black_dest:
  "dest (fill_black p i n s) j =
     (if p + i \<le> j \<and> j < p + fill_end i n then neutral (j - (p + i)) else dest s j)"
proof (induction p i n s arbitrary: j rule: fill_black.induct)
  case (1 p i n s)
  show ?case
  proof (cases "i < n")
    case True
    have ge: "i + 4 \<le> fill_end i n"
      using fill_end_ge [of "i + 4" n] fill_end_step [OF True] by simp
    show ?thesis
      using True 1 [OF True, of j] ge
      by (subst fill_black.simps) (auto simp: fill_end_step neutral_parity)
  next
    case False
    then show ?thesis by (subst fill_black.simps) (auto simp: fill_end_def)
  qed
qed

subsection \<open>Word arithmetic\<close>

lemma sint_chunkSize [simp]: "sint chunkSize = 65536"
  by (simp add: chunkSize_def)

lemma sint_bounds32: "- (2 ^ 31) \<le> sint (w :: int32)" "sint (w :: int32) < 2 ^ 31"
  using sint_ge [of w] sint_lt [of w] by simp_all

lemma sint_add32:
  "- (2 ^ 31) \<le> sint (a :: int32) + sint b \<Longrightarrow> sint a + sint b < 2 ^ 31 \<Longrightarrow> sint (a + b) = sint a + sint b"
  by (simp add: sint_word_ariths signed_take_bit_int_eq_self)

lemma sint_sub32:
  "- (2 ^ 31) \<le> sint (a :: int32) - sint b \<Longrightarrow> sint a - sint b < 2 ^ 31 \<Longrightarrow> sint (a - b) = sint a - sint b"
  by (simp add: sint_word_ariths signed_take_bit_int_eq_self)

lemma sint_add32_wrap_le:
  "2 ^ 31 \<le> sint (a :: int32) + sint b \<Longrightarrow> sint (a + b) \<le> sint a + sint b - 2 ^ 32"
  using signed_take_bit_int_less_eq [of 31 "sint a + sint b"]
  by (simp add: sint_word_ariths)

lemma uint_scast_nonneg:
  "0 \<le> sint (w :: int32) \<Longrightarrow> uint (scast w :: addr) = sint w"
proof -
  assume h: "0 \<le> sint w"
  have "sint w < 2 ^ 31" by (rule sint_bounds32)
  also have "(2 :: int) ^ 31 < 2 ^ 64" by simp
  finally have lt: "sint w < 2 ^ 64" .
  have "uint (scast w :: addr) = take_bit 64 (sint w)"
    by (subst scast_eq, subst uint_word_of_int_eq) simp
  also have "\<dots> = sint w"
    using h lt by (rule take_bit_int_eq_self)
  finally show ?thesis .
qed

lemma unat_scast_nonneg:
  "0 \<le> sint (w :: int32) \<Longrightarrow> unat (scast w :: addr) = nat (sint w)"
  using uint_scast_nonneg [of w] by (simp add: unat_eq_nat_uint)


lemma thisChunk_bounds:
  assumes "pos <s bufferSize"
  shows "0 < sint (thisChunk pos bufferSize) \<and> sint (thisChunk pos bufferSize) \<le> 65536"
proof (cases "pos + chunkSize <=s bufferSize")
  case True
  then show ?thesis by (simp add: thisChunk_def)
next
  case False
  have lt: "sint pos < sint bufferSize"
    using assms by (simp add: word_sless_alt)
  have gt: "sint bufferSize < sint (pos + chunkSize)"
    using False by (simp add: word_sle_eq)
  have nowrap: "sint pos + 65536 < 2 ^ 31"
  proof (rule ccontr)
    assume "\<not> sint pos + 65536 < 2 ^ 31"
    then have "sint (pos + chunkSize) \<le> sint pos + 65536 - 2 ^ 32"
      using sint_add32_wrap_le [of pos chunkSize] by simp
    with gt lt show False by simp
  qed
  have next_pos: "sint (pos + chunkSize) = sint pos + 65536"
    using nowrap sint_bounds32 [of pos] sint_add32 [of pos chunkSize] by simp
  have "sint (bufferSize - pos) = sint bufferSize - sint pos"
    using lt gt next_pos sint_bounds32 [of pos] sint_bounds32 [of bufferSize]
    by (intro sint_sub32) simp_all
  with False lt gt next_pos show ?thesis by (simp add: thisChunk_def)
qed

subsection \<open>The chunk loop: a rule for loops that start in range\<close>

lemma chunk_loop_rule:
  assumes pos: "0 \<le> sint pos" and range: "sint bufferSize \<le> 2 ^ 31 - 65536"
    and exit: "\<And>pos bc s. 0 \<le> sint pos \<Longrightarrow> \<not> pos <s bufferSize \<Longrightarrow> P pos bc s bc s"
    and step: "\<And>pos bc s bc' s'. 0 \<le> sint pos \<Longrightarrow> pos <s bufferSize \<Longrightarrow>
                 sint (pos + chunkSize) = sint pos + 65536 \<Longrightarrow>
                 P (pos + chunkSize) (fst (chunk_body f src bufferSize pos bc s))
                   (snd (chunk_body f src bufferSize pos bc s)) bc' s' \<Longrightarrow>
                 P pos bc s bc' s'"
  shows "\<exists>bc' s'. chunk_loop f src bufferSize pos bc s = Some (bc', s') \<and> P pos bc s bc' s'"
  using pos
proof (induction "nat (sint bufferSize - sint pos)" arbitrary: pos bc s rule: less_induct)
  case less
  show ?case
  proof (cases "pos <s bufferSize")
    case False
    then show ?thesis
      using exit [OF less.prems False] by (subst chunk_loop.simps) simp
  next
    case True
    then have lt: "sint pos < sint bufferSize"
      by (simp add: word_sless_alt)
    have nxt: "sint (pos + chunkSize) = sint pos + 65536"
      using lt range less.prems sint_add32 [of pos chunkSize] by simp
    have "\<exists>bc' s'. chunk_loop f src bufferSize (pos + chunkSize)
              (fst (chunk_body f src bufferSize pos bc s))
              (snd (chunk_body f src bufferSize pos bc s)) = Some (bc', s') \<and>
            P (pos + chunkSize) (fst (chunk_body f src bufferSize pos bc s))
              (snd (chunk_body f src bufferSize pos bc s)) bc' s'"
      using lt nxt less.prems by (intro less.hyps) simp_all
    then obtain bc' s' where
      r: "chunk_loop f src bufferSize (pos + chunkSize)
              (fst (chunk_body f src bufferSize pos bc s))
              (snd (chunk_body f src bufferSize pos bc s)) = Some (bc', s')"
      and p: "P (pos + chunkSize) (fst (chunk_body f src bufferSize pos bc s))
              (snd (chunk_body f src bufferSize pos bc s)) bc' s'"
      by blast
    have "chunk_loop f src bufferSize pos bc s = Some (bc', s')"
      using True r by (subst chunk_loop.simps) simp
    moreover have "P pos bc s bc' s'"
      using step [OF less.prems True nxt p] .
    ultimately show ?thesis by blast
  qed
qed

subsection \<open>The chunk loop returns only in range\<close>

lemma dvd_sint_add_chunk:
  assumes "65536 dvd sint (pos :: int32)"
  shows "65536 dvd sint (pos + chunkSize)"
proof -
  have "sint (pos + chunkSize) = signed_take_bit 31 (sint pos + 65536)"
    by (simp add: sint_word_ariths)
  also have "\<dots> = take_bit 32 (sint pos + 65536) - 2 ^ 32 * of_bool (bit (sint pos + 65536) 31)"
    using signed_take_bit_eq_take_bit_minus [of 31 "sint pos + 65536"] by simp
  finally have eq: "sint (pos + chunkSize) =
      (sint pos + 65536) mod 2 ^ 32 - 2 ^ 32 * of_bool (bit (sint pos + 65536) 31)"
    by (simp add: take_bit_eq_mod)
  have "(65536 :: int) dvd 2 ^ 32" by simp
  moreover have "65536 dvd sint pos + 65536" using assms by simp
  ultimately have "65536 dvd (sint pos + 65536) mod 2 ^ 32"
    by (simp only: dvd_mod)
  then show ?thesis
    unfolding eq by (intro dvd_diff) simp_all
qed

lemma chunk_loop_returns_only_in_range:
  assumes "chunk_loop f src bufferSize pos bc s = Some r"
  shows "65536 dvd sint pos \<longrightarrow> sint bufferSize \<le> 2 ^ 31 - 65536"
proof (rule chunk_loop.raw_induct
    [where P = "\<lambda>f src bufferSize pos bc s r.
                  65536 dvd sint pos \<longrightarrow> sint bufferSize \<le> 2 ^ 31 - 65536", OF _ assms])
  fix loop :: "frame \<Rightarrow> addr \<Rightarrow> int32 \<Rightarrow> int32 \<Rightarrow> int32 \<Rightarrow> state \<Rightarrow> (int32 \<times> state) option"
  fix f src bufferSize pos bc s r
  assume IH: "\<And>f src bufferSize pos bc s r. loop f src bufferSize pos bc s = Some r \<Longrightarrow>
                65536 dvd sint pos \<longrightarrow> sint bufferSize \<le> 2 ^ 31 - 65536"
    and unfolded: "(if pos <s bufferSize
           then loop f src bufferSize (pos + chunkSize)
                  (fst (chunk_body f src bufferSize pos bc s))
                  (snd (chunk_body f src bufferSize pos bc s))
           else Some (bc, s)) = Some r"
  show "65536 dvd sint pos \<longrightarrow> sint bufferSize \<le> 2 ^ 31 - 65536"
  proof (cases "pos <s bufferSize")
    case True
    with unfolded have "loop f src bufferSize (pos + chunkSize)
        (fst (chunk_body f src bufferSize pos bc s))
        (snd (chunk_body f src bufferSize pos bc s)) = Some r"
      by simp
    then have "65536 dvd sint (pos + chunkSize) \<longrightarrow> sint bufferSize \<le> 2 ^ 31 - 65536"
      by (rule IH)
    then show ?thesis
      using dvd_sint_add_chunk [of pos] by blast
  next
    case False
    then have le: "sint bufferSize \<le> sint pos" by (simp add: word_sless_alt)
    show ?thesis
    proof
      assume "65536 dvd sint pos"
      then have "sint pos \<le> 2 ^ 31 - 65536"
        using sint_bounds32(2) [of pos] by (elim dvdE) simp
      with le show "sint bufferSize \<le> 2 ^ 31 - 65536" by simp
    qed
  qed
qed

subsection \<open>One iteration of the chunk loop\<close>

lemma thisChunk_sint:
  assumes "0 \<le> sint pos" "pos <s bufferSize" "sint bufferSize \<le> 2 ^ 31 - 65536"
  shows "sint (thisChunk pos bufferSize) = min 65536 (sint bufferSize - sint pos)"
proof -
  have lt: "sint pos < sint bufferSize"
    using assms(2) by (simp add: word_sless_alt)
  have nxt: "sint (pos + chunkSize) = sint pos + 65536"
    using lt assms sint_add32 [of pos chunkSize] by simp
  have sub: "sint (bufferSize - pos) = sint bufferSize - sint pos"
    using lt assms sint_bounds32 [of bufferSize] by (intro sint_sub32) simp_all
  show ?thesis
    by (simp add: thisChunk_def word_sle_eq nxt sub)
qed

lemma src_offset:
  "(src :: addr) + scast (pos :: int32) + word_of_int (i - sint pos) = src + word_of_int i"
proof -
  have "(scast pos :: addr) + word_of_int (i - sint pos) = word_of_int (sint pos + (i - sint pos))"
    by (subst scast_eq) (simp only: wi_hom_add)
  then show ?thesis by (simp add: add.assoc)
qed

lemma chunk_body_ok:
  assumes "copy_stops f (src + scast pos) (unat (scast (thisChunk pos bufferSize) :: addr)) = None"
    and "pos <s bufferSize"
  shows "fst (chunk_body f src bufferSize pos bc s) = bc + thisChunk pos bufferSize"
    and "dest (snd (chunk_body f src bufferSize pos bc s)) i =
           (if sint pos \<le> i \<and> i < sint pos + sint (thisChunk pos bufferSize)
            then contents f (src + word_of_int i) else dest s i)"
proof -
  have len: "copied_length f (src + scast pos) (scast (thisChunk pos bufferSize)) =
      nat (sint (thisChunk pos bufferSize))"
    using assms(1) thisChunk_bounds [OF assms(2)]
    by (simp add: copied_length_complete unat_scast_nonneg)
  have pos_len: "0 < sint (thisChunk pos bufferSize)"
    using thisChunk_bounds [OF assms(2)] by simp
  obtain b s1 where m: "memcpy f (sint pos) (src + scast pos) (scast (thisChunk pos bufferSize)) s = (b, s1)"
    by (cases "memcpy f (sint pos) (src + scast pos) (scast (thisChunk pos bufferSize)) s")
  have b: "b" using memcpy_fields(4) [of f "sint pos" "src + scast pos" "scast (thisChunk pos bufferSize)" s] assms(1) m by simp
  have s1: "s1 = snd (memcpy f (sint pos) (src + scast pos) (scast (thisChunk pos bufferSize)) s)"
    using m by simp
  show "fst (chunk_body f src bufferSize pos bc s) = bc + thisChunk pos bufferSize"
    using m b by (simp add: chunk_body_def)
  have "snd (chunk_body f src bufferSize pos bc s) = s1"
    using m b by (simp add: chunk_body_def)
  then show "dest (snd (chunk_body f src bufferSize pos bc s)) i =
           (if sint pos \<le> i \<and> i < sint pos + sint (thisChunk pos bufferSize)
            then contents f (src + word_of_int i) else dest s i)"
    using pos_len by (simp add: s1 memcpy_dest len src_offset)
qed

lemma chunk_body_fault:
  assumes "copy_stops f (src + scast pos) (unat (scast (thisChunk pos bufferSize) :: addr)) \<noteq> None"
    and "pos <s bufferSize"
  shows "fst (chunk_body f src bufferSize pos bc s) = bc"
    and "snd (chunk_body f src bufferSize pos bc s) =
           fill_black (sint pos) 0 (sint (thisChunk pos bufferSize))
             (snd (memcpy f (sint pos) (src + scast pos) (scast (thisChunk pos bufferSize)) s))"
proof -
  obtain b s1 where m: "memcpy f (sint pos) (src + scast pos) (scast (thisChunk pos bufferSize)) s = (b, s1)"
    by (cases "memcpy f (sint pos) (src + scast pos) (scast (thisChunk pos bufferSize)) s")
  have "unat (scast (thisChunk pos bufferSize) :: addr) \<noteq> 0"
    using thisChunk_bounds [OF assms(2)] by (simp add: unat_scast_nonneg)
  then have b: "\<not> b"
    using memcpy_fields(4) [of f "sint pos" "src + scast pos" "scast (thisChunk pos bufferSize)" s]
      assms(1) m by simp
  show "fst (chunk_body f src bufferSize pos bc s) = bc"
    using m b by (simp add: chunk_body_def)
  show "snd (chunk_body f src bufferSize pos bc s) =
           fill_black (sint pos) 0 (sint (thisChunk pos bufferSize))
             (snd (memcpy f (sint pos) (src + scast pos) (scast (thisChunk pos bufferSize)) s))"
    using m b by (simp add: chunk_body_def)
qed

lemma fill_end_0: "0 < n \<Longrightarrow> n \<le> fill_end 0 n \<and> fill_end 0 n < n + 4"
  unfolding fill_end_def by (auto; presburger)

lemma chunk_body_fault_dest:
  assumes "copy_stops f (src + scast pos) (unat (scast (thisChunk pos bufferSize) :: addr)) \<noteq> None"
    and "pos <s bufferSize"
  shows "i < sint pos \<Longrightarrow> dest (snd (chunk_body f src bufferSize pos bc s)) i = dest s i"
    and "sint pos \<le> i \<Longrightarrow> i < sint pos + sint (thisChunk pos bufferSize) \<Longrightarrow>
           dest (snd (chunk_body f src bufferSize pos bc s)) i = neutral (i - sint pos)"
proof -
  have b: "0 < sint (thisChunk pos bufferSize)"
    using thisChunk_bounds [OF assms(2)] by simp
  show "i < sint pos \<Longrightarrow> dest (snd (chunk_body f src bufferSize pos bc s)) i = dest s i"
    by (simp add: chunk_body_fault(2) [OF assms] fill_black_dest memcpy_dest)
  show "sint pos \<le> i \<Longrightarrow> i < sint pos + sint (thisChunk pos bufferSize) \<Longrightarrow>
           dest (snd (chunk_body f src bufferSize pos bc s)) i = neutral (i - sint pos)"
    using fill_end_0 [OF b]
    by (simp add: chunk_body_fault(2) [OF assms] fill_black_dest)
qed

subsection \<open>The chunk loop with a single faulting chunk\<close>

lemma chunk_pos_Suc: "chunk_pos (Suc j) = chunk_pos j + chunkSize"
  by (simp add: chunk_pos_def algebra_simps)

lemma chunk_pos_sint:
  assumes "65536 * int k < 2 ^ 31"
  shows "sint (chunk_pos k) = 65536 * int k"
proof -
  have "chunk_pos k = word_of_int (65536 * int k)"
    by (simp add: chunk_pos_def chunkSize_def)
  then have "sint (chunk_pos k) = signed_take_bit 31 (65536 * int k)"
    by (simp only: sint_sbintrunc') simp
  also have "\<dots> = 65536 * int k"
    using assms by (intro signed_take_bit_int_eq_self) simp_all
  finally show ?thesis .
qed

lemma remaining_step:
  assumes "0 \<le> sint pos" "pos <s bufferSize" "sint bufferSize \<le> 2 ^ 31 - 65536"
  shows "remaining bufferSize (pos + chunkSize) = bufferSize - pos - thisChunk pos bufferSize"
proof -
  have lt: "sint pos < sint bufferSize"
    using assms(2) by (simp add: word_sless_alt)
  have nxt: "sint (pos + chunkSize) = sint pos + 65536"
    using lt assms sint_add32 [of pos chunkSize] by simp
  show ?thesis
  proof (cases "pos + chunkSize <s bufferSize")
    case True
    then have "pos + chunkSize <=s bufferSize"
      by (simp add: word_sless_alt word_sle_eq)
    with True show ?thesis by (simp add: remaining_def thisChunk_def)
  next
    case False
    show ?thesis
    proof (cases "pos + chunkSize <=s bufferSize")
      case le: True
      with False have "sint (pos + chunkSize) = sint bufferSize"
        by (simp add: word_sless_alt word_sle_eq)
      then have "pos + chunkSize = bufferSize" by (rule signed_word_eqI)
      then have "bufferSize - pos - chunkSize = 0" by (simp add: algebra_simps)
      with False le show ?thesis by (simp add: remaining_def thisChunk_def)
    next
      case nle: False
      with False show ?thesis by (simp add: remaining_def thisChunk_def)
    qed
  qed
qed

lemma chunk_loop_one_fault:
  fixes k :: nat
  assumes range: "sint bufferSize \<le> 2 ^ 31 - 65536"
    and k: "65536 * int k < sint bufferSize"
    and faults: "chunk_faults f src bufferSize k"
    and others: "\<forall>j. j \<noteq> k \<and> 65536 * int j < sint bufferSize \<longrightarrow> \<not> chunk_faults f src bufferSize j"
  shows "\<exists>bc' s'. chunk_loop f src bufferSize 0 0 s = Some (bc', s') \<and>
           bc' = bufferSize - thisChunk (chunk_pos k) bufferSize \<and>
           (\<forall>i. 0 \<le> i \<and> i < sint bufferSize \<longrightarrow>
              dest s' i =
                (if 65536 * int k \<le> i \<and> i < 65536 * int k + sint (thisChunk (chunk_pos k) bufferSize)
                 then neutral (i - 65536 * int k) else contents f (src + word_of_int i)))"
proof -
  define spec where "spec i =
     (if 65536 * int k \<le> i \<and> i < 65536 * int k + sint (thisChunk (chunk_pos k) bufferSize)
      then neutral (i - 65536 * int k) else contents f (src + word_of_int i))" for i
  define P where "P pos bc s bc' s' \<longleftrightarrow>
     (\<forall>j. pos = chunk_pos j \<and> sint pos = 65536 * int j \<longrightarrow>
        (\<forall>i. i < sint pos \<longrightarrow> dest s' i = dest s i) \<and>
        (\<forall>i. sint pos \<le> i \<and> i < sint bufferSize \<longrightarrow> dest s' i = spec i) \<and>
        bc' = bc + remaining bufferSize pos -
                (if j \<le> k then thisChunk (chunk_pos k) bufferSize else 0))"
    for pos :: int32 and bc :: int32 and s :: state and bc' :: int32 and s' :: state
  have exit: "P pos bc s bc s" if "0 \<le> sint pos" "\<not> pos <s bufferSize" for pos bc s
  proof -
    have ge: "sint bufferSize \<le> sint pos" using that(2) by (simp add: word_sless_alt)
    show ?thesis
      unfolding P_def using ge k that(2) by (auto simp: remaining_def)
  qed
  have step: "P pos bc s bc' s'"
    if pos: "0 \<le> sint pos" and lt: "pos <s bufferSize"
      and nxt: "sint (pos + chunkSize) = sint pos + 65536"
      and IH: "P (pos + chunkSize) (fst (chunk_body f src bufferSize pos bc s))
                 (snd (chunk_body f src bufferSize pos bc s)) bc' s'"
    for pos bc s bc' s'
    unfolding P_def
  proof (intro allI impI, elim conjE)
    fix j
    assume pj: "pos = chunk_pos j" and sj: "sint pos = 65536 * int j"
    let ?sb = "snd (chunk_body f src bufferSize pos bc s)"
    let ?bcb = "fst (chunk_body f src bufferSize pos bc s)"
    have slt: "sint pos < sint bufferSize" using lt by (simp add: word_sless_alt)
    have len: "sint (thisChunk pos bufferSize) = min 65536 (sint bufferSize - sint pos)"
      using thisChunk_sint [OF pos lt range] .
    have "pos + chunkSize = chunk_pos (Suc j)" "sint (pos + chunkSize) = 65536 * int (Suc j)"
      using pj sj nxt by (simp_all add: chunk_pos_Suc)
    with IH have
      a': "\<And>i. i < sint pos + 65536 \<Longrightarrow> dest s' i = dest ?sb i" and
      b': "\<And>i. sint pos + 65536 \<le> i \<Longrightarrow> i < sint bufferSize \<Longrightarrow> dest s' i = spec i" and
      c': "bc' = ?bcb + remaining bufferSize (pos + chunkSize) -
                (if Suc j \<le> k then thisChunk (chunk_pos k) bufferSize else 0)"
      unfolding P_def nxt by blast+
    have rem: "remaining bufferSize pos = bufferSize - pos"
      using lt by (simp add: remaining_def)
    note rem' = remaining_step [OF pos lt range]
    show "(\<forall>i. i < sint pos \<longrightarrow> dest s' i = dest s i) \<and>
        (\<forall>i. sint pos \<le> i \<and> i < sint bufferSize \<longrightarrow> dest s' i = spec i) \<and>
        bc' = bc + remaining bufferSize pos -
                (if j \<le> k then thisChunk (chunk_pos k) bufferSize else 0)"
    proof (cases "j = k")
      case True
      have fl: "copy_stops f (src + scast pos)
                  (unat (scast (thisChunk pos bufferSize) :: addr)) \<noteq> None"
        using faults True pj by (simp add: chunk_faults_def)
      note d = chunk_body_fault_dest [OF fl lt]
      have A: "dest s' i = dest s i" if "i < sint pos" for i
        using a' [of i] d(1) [of i] that by simp
      have B: "dest s' i = spec i" if "sint pos \<le> i" "i < sint bufferSize" for i
      proof (cases "i < sint pos + 65536")
        case near: True
        then have "i < sint pos + sint (thisChunk pos bufferSize)"
          using that len by simp
        then show ?thesis
          using a' [OF near] d(2) [of i] that True pj sj by (simp add: spec_def)
      next
        case False
        then show ?thesis using b' [of i] that by simp
      qed
      have tkeq: "thisChunk (chunk_pos k) bufferSize = thisChunk pos bufferSize"
        using True pj by simp
      have C: "bc' = bc + remaining bufferSize pos - thisChunk (chunk_pos k) bufferSize"
        using c' True by (simp add: chunk_body_fault(1) [OF fl lt] rem rem' tkeq)
      from A B C True show ?thesis by simp
    next
      case False
      have nf: "copy_stops f (src + scast pos)
                  (unat (scast (thisChunk pos bufferSize) :: addr)) = None"
        using others False pj sj slt by (simp add: chunk_faults_def)
      note d = chunk_body_ok [OF nf lt]
      have A: "dest s' i = dest s i" if "i < sint pos" for i
        using a' [of i] d(2) [of bc s i] that by simp
      have "chunk_pos k <s bufferSize"
        using k range chunk_pos_sint [of k] by (simp add: word_sless_alt)
      then have tk: "sint (thisChunk (chunk_pos k) bufferSize) \<le> 65536"
        using thisChunk_bounds [of "chunk_pos k" bufferSize] by simp
      have B: "dest s' i = spec i" if "sint pos \<le> i" "i < sint bufferSize" for i
      proof (cases "i < sint pos + 65536")
        case near: True
        then have in_chunk: "i < sint pos + sint (thisChunk pos bufferSize)"
          using that len by simp
        have "\<not> (65536 * int k \<le> i \<and> i < 65536 * int k + sint (thisChunk (chunk_pos k) bufferSize))"
          using False near that(1) sj tk by (cases "j < k") auto
        then show ?thesis
          using a' [OF near] d(2) [of bc s i] that in_chunk by (auto simp: spec_def)
      next
        case far: False
        then show ?thesis using b' [of i] that by simp
      qed
      have C: "bc' = bc + remaining bufferSize pos -
                (if j \<le> k then thisChunk (chunk_pos k) bufferSize else 0)"
        using c' False by (auto simp: d(1) rem rem')
      from A B C show ?thesis by simp
    qed
  qed
  have "\<exists>bc' s'. chunk_loop f src bufferSize 0 0 s = Some (bc', s') \<and> P 0 0 s bc' s'"
    by (rule chunk_loop_rule [where P = P, OF _ range exit step]) simp_all
  then obtain bc' s' where
    run: "chunk_loop f src bufferSize 0 0 s = Some (bc', s')" and p: "P 0 0 s bc' s'"
    by blast
  have "0 \<le> 65536 * int k" by simp
  with k have pos_B: "0 < sint bufferSize" by linarith
  have "(0 :: int32) = chunk_pos 0 \<and> sint (0 :: int32) = 65536 * int 0"
    by (simp add: chunk_pos_def)
  with p have
    b: "\<And>i. 0 \<le> i \<Longrightarrow> i < sint bufferSize \<Longrightarrow> dest s' i = spec i" and
    c: "bc' = 0 + remaining bufferSize 0 - thisChunk (chunk_pos k) bufferSize"
    unfolding P_def by auto
  have "remaining bufferSize 0 = bufferSize"
    using pos_B by (simp add: remaining_def word_sless_alt)
  with c have "bc' = bufferSize - thisChunk (chunk_pos k) bufferSize" by simp
  with run b show ?thesis
    unfolding spec_def by blast
qed

subsection \<open>The bulk copy\<close>

lemma scast_size_0:
  assumes "unat (scast (bufferSize :: int32) :: addr) = 0"
  shows "bufferSize = 0"
proof -
  have "(scast bufferSize :: addr) = 0"
    using assms by (simp add: unat_eq_0)
  then have "sint (scast bufferSize :: addr) = 0" by simp
  moreover have "sint (scast bufferSize :: addr) = sint bufferSize"
    by (rule sint_up_scast) (simp add: is_up)
  ultimately have "sint bufferSize = sint (0 :: int32)" by simp
  then show ?thesis by (rule signed_word_eqI)
qed

lemma raw_copy_bulk_fault:
  assumes "copy_stops f src (unat (scast bufferSize :: addr)) \<noteq> None"
  shows "raw_copy f src bufferSize s =
           chunk_loop f src bufferSize 0 0 (snd (memcpy f 0 src (scast bufferSize) s))"
proof (cases "unat (scast bufferSize :: addr) = 0")
  case True
  then have z: "bufferSize = 0" by (rule scast_size_0)
  have "chunk_loop f src 0 0 0 (snd (memcpy f 0 src (scast 0) s)) =
      Some (0, snd (memcpy f 0 src (scast 0) s))"
    by (subst chunk_loop.simps) simp
  moreover have "raw_copy f src 0 s = Some (0, snd (memcpy f 0 src (scast 0) s))"
    by (cases "memcpy f 0 src (scast 0) s") (auto simp: raw_copy_def memcpy_def)
  ultimately show ?thesis unfolding z by simp
next
  case False
  with assms show ?thesis
    by (cases "memcpy f 0 src (scast bufferSize) s") (auto simp: raw_copy_def memcpy_def)
qed

lemma raw_copy_bulk_ok:
  "copy_stops f src (unat (scast bufferSize :: addr)) = None \<Longrightarrow>
     raw_copy f src bufferSize s = Some (bufferSize, snd (memcpy f 0 src (scast bufferSize) s))"
  by (cases "memcpy f 0 src (scast bufferSize) s") (auto simp: raw_copy_def memcpy_def)

lemma unat_scast_numeral_ex [simp]:
  "unat (scast (131078 :: int32) :: addr) = 131078"
  "unat (scast (65536 :: int32) :: addr) = 65536"
  "unat (scast (6 :: int32) :: addr) = 6"
  by (simp_all add: unat_scast_nonneg)

lemma scast_ex [simp]:
  "(scast (65536 :: int32) :: addr) = 65536" "(scast (131072 :: int32) :: addr) = 131072" "(scast (0 :: int32) :: addr) = 0"
  by simp_all

subsection \<open>The chunk loop from position 0\<close>

lemma chunk_loop_rule0:
  assumes run: "chunk_loop f src bufferSize 0 bc s = Some (bc', s')"
    and exit: "\<And>pos bc s. 0 \<le> sint pos \<Longrightarrow> \<not> pos <s bufferSize \<Longrightarrow> P pos bc s bc s"
    and step: "\<And>pos bc s bc' s'. 0 \<le> sint pos \<Longrightarrow> pos <s bufferSize \<Longrightarrow>
                 sint (pos + chunkSize) = sint pos + 65536 \<Longrightarrow>
                 P (pos + chunkSize) (fst (chunk_body f src bufferSize pos bc s))
                   (snd (chunk_body f src bufferSize pos bc s)) bc' s' \<Longrightarrow>
                 P pos bc s bc' s'"
  shows "sint bufferSize \<le> 2 ^ 31 - 65536 \<and> P 0 bc s bc' s'"
proof -
  have "65536 dvd sint (0 :: int32) \<longrightarrow> sint bufferSize \<le> 2 ^ 31 - 65536"
    using run by (rule chunk_loop_returns_only_in_range)
  then have range: "sint bufferSize \<le> 2 ^ 31 - 65536" by simp
  have "\<exists>bc' s'. chunk_loop f src bufferSize 0 bc s = Some (bc', s') \<and> P 0 bc s bc' s'"
    by (rule chunk_loop_rule [where P = P, OF _ range exit step]) simp_all
  with run range show ?thesis by auto
qed

lemma chunk_body_quiet:
  "events (snd (chunk_body f src bufferSize pos bc s)) = events s"
  "probed (snd (chunk_body f src bufferSize pos bc s)) = probed s"
  by (cases "memcpy f (sint pos) (src + scast pos) (scast (thisChunk pos bufferSize)) s";
      cases "fst (memcpy f (sint pos) (src + scast pos) (scast (thisChunk pos bufferSize)) s)";
      simp add: chunk_body_def;
      metis memcpy_fields(1,2) snd_conv)+

lemma chunk_loop_quiet:
  assumes "chunk_loop f src bufferSize 0 bc s = Some (bc', s')"
  shows "events s' = events s \<and> probed s' = probed s"
  using chunk_loop_rule0 [OF assms, where P = "\<lambda>pos bc s bc' s'. events s' = events s \<and> probed s' = probed s"]
  by (simp add: chunk_body_quiet)

lemma raw_copy_quiet:
  assumes "raw_copy f src bufferSize s = Some (bc, s')"
  shows "events s' = events s \<and> probed s' = probed s"
proof (cases "copy_stops f src (unat (scast bufferSize :: addr)) = None")
  case True
  with assms show ?thesis by (auto simp: raw_copy_bulk_ok)
next
  case False
  with assms chunk_loop_quiet [of f src bufferSize 0 "snd (memcpy f 0 src (scast bufferSize) s)" bc s']
  show ?thesis by (simp add: raw_copy_bulk_fault)
qed

lemma chunk_body_stored:
  assumes "pos <s bufferSize"
  shows "stored (snd (chunk_body f src bufferSize pos bc s)) \<subseteq>
           stored s \<union> {sint pos ..< sint pos + fill_end 0 (sint (thisChunk pos bufferSize))}"
proof -
  have b: "0 < sint (thisChunk pos bufferSize)"
    using thisChunk_bounds [OF assms] by simp
  have len: "int (copied_length f (src + scast pos) (scast (thisChunk pos bufferSize)))
               \<le> sint (thisChunk pos bufferSize)"
    using copied_length_le [of f "src + scast pos" "scast (thisChunk pos bufferSize)"] b
    by (simp add: unat_scast_nonneg)
  have m: "stored (snd (memcpy f (sint pos) (src + scast pos) (scast (thisChunk pos bufferSize)) s))
             \<subseteq> stored s \<union> {sint pos ..< sint pos + fill_end 0 (sint (thisChunk pos bufferSize))}"
    using len fill_end_0 [OF b] by auto
  show ?thesis
  proof (cases "copy_stops f (src + scast pos) (unat (scast (thisChunk pos bufferSize) :: addr)) = None")
    case True
    obtain b' s1 where mm: "memcpy f (sint pos) (src + scast pos) (scast (thisChunk pos bufferSize)) s = (b', s1)"
      by (cases "memcpy f (sint pos) (src + scast pos) (scast (thisChunk pos bufferSize)) s")
    have "b'" using memcpy_fields(4) [of f "sint pos" "src + scast pos" "scast (thisChunk pos bufferSize)" s] True mm by simp
    then have "snd (chunk_body f src bufferSize pos bc s) = s1"
      using mm by (simp add: chunk_body_def)
    with m mm show ?thesis by simp
  next
    case False
    show ?thesis
      using m by (simp add: chunk_body_fault(2) [OF False assms] fill_black_stored) 
  qed
qed

lemma chunk_loop_stored:
  assumes "chunk_loop f src bufferSize 0 bc s = Some (bc', s')"
  shows "stored s' \<subseteq> stored s \<union> {0 ..< round4 (sint bufferSize)}"
proof -
  define P where "P pos bc s bc' s' \<longleftrightarrow>
      (4 dvd sint pos \<longrightarrow> stored s' \<subseteq> stored s \<union> {sint pos ..< round4 (sint bufferSize)})"
    for pos :: int32 and bc :: int32 and s :: state and bc' :: int32 and s' :: state
  have exit: "P pos bc s bc s" for pos bc s
    by (simp add: P_def)
  have range_step: "P pos bc s bc' s'"
    if pos: "0 \<le> sint pos" and lt: "pos <s bufferSize"
      and nxt: "sint (pos + chunkSize) = sint pos + 65536"
      and range: "sint bufferSize \<le> 2 ^ 31 - 65536"
      and IH: "P (pos + chunkSize) (fst (chunk_body f src bufferSize pos bc s))
                 (snd (chunk_body f src bufferSize pos bc s)) bc' s'"
    for pos bc s bc' s'
    unfolding P_def
  proof
    assume d: "4 dvd sint pos"
    have len: "sint (thisChunk pos bufferSize) = min 65536 (sint bufferSize - sint pos)"
      using thisChunk_sint [OF pos lt range] .
    have slt: "sint pos < sint bufferSize" using lt by (simp add: word_sless_alt)
    have "4 dvd sint (pos + chunkSize)" using d nxt by simp
    with IH have 1: "stored s' \<subseteq> stored (snd (chunk_body f src bufferSize pos bc s)) \<union>
        {sint pos + 65536 ..< round4 (sint bufferSize)}"
      by (simp add: P_def nxt)
    note 2 = chunk_body_stored [OF lt, of f src bc s]
    have 3: "sint pos + fill_end 0 (sint (thisChunk pos bufferSize)) \<le> round4 (sint bufferSize)"
      using d slt unfolding len fill_end_def round4_def by (auto; presburger)
    have 4: "{sint pos ..< sint pos + fill_end 0 (sint (thisChunk pos bufferSize))} \<union>
        {sint pos + 65536 ..< round4 (sint bufferSize)} \<subseteq> {sint pos ..< round4 (sint bufferSize)}"
      using 3 by auto
    show "stored s' \<subseteq> stored s \<union> {sint pos ..< round4 (sint bufferSize)}"
      using 1 2 4 by blast
  qed
  have "65536 dvd sint (0 :: int32) \<longrightarrow> sint bufferSize \<le> 2 ^ 31 - 65536"
    using assms by (rule chunk_loop_returns_only_in_range)
  then have range: "sint bufferSize \<le> 2 ^ 31 - 65536" by simp
  have "P 0 bc s bc' s'"
    using chunk_loop_rule0 [OF assms, where P = P] exit range_step [OF _ _ _ range] by blast
  then show ?thesis by (simp add: P_def)
qed

subsection \<open>The paths before the raw-offset fallback\<close>

lemma quiet_simps [simp]:
  "quiet []" "quiet (es @ es') \<longleftrightarrow> quiet es \<and> quiet es'"
  "quiet (e # es) \<longleftrightarrow> e \<notin> {AddRef, ReadOffset280, Release, Detector} \<and> quiet es"
  by (auto simp: quiet_def)

lemma copied_length_uint: "int (copied_length f src n) \<le> uint n"
proof -
  have "int (copied_length f src n) \<le> int (unat n)"
    using copied_length_le [of f src n] by (simp only: of_nat_le_iff)
  then show ?thesis by simp
qed

lemma copied_length_less: "x < int (copied_length f src n) \<Longrightarrow> x < uint n"
  using copied_length_uint [of f src n] by simp

lemma advances_refl [simp]: "advances s E s"
  by (simp add: advances_def)

lemma advances_trans:
  assumes "advances s E s'" "advances s' E s''"
  shows "advances s E s''"
proof -
  from assms obtain es es' where
    "events s' = events s @ es" "quiet es" "events s'' = events s' @ es'" "quiet es'"
    unfolding advances_def by blast
  then have "events s'' = events s @ (es @ es') \<and> quiet (es @ es')" by simp
  then have "\<exists>es. events s'' = events s @ es \<and> quiet es" by blast
  with assms show ?thesis unfolding advances_def by auto
qed

lemma advances_mono: "advances s E s' \<Longrightarrow> E \<subseteq> E' \<Longrightarrow> advances s E' s'"
  unfolding advances_def by auto

lemma advances_probe: "advances s E (probe f i s)"
  by (simp add: probe_def Let_def advances_def)

lemma read_geometry_run:
  assumes "read_geometry f s = (g, s')"
  shows "advances s E s'"
    and "g = Some (width, height, rowBytes) \<Longrightarrow>
           getWidth f = Some width \<and> getHeight f = Some height \<and> getRowBytes f = Some rowBytes"
  using assms
  by (auto simp: read_geometry_def Let_def advances_def split: option.splits)

lemma video_buffer_access_run:
  assumes "video_buffer_access f bufferSize rowBytes height s = (r, s')"
  shows "(r = 0 \<or> r = 1) \<and>
         advances s {0 ..< uint (scast (copySize bufferSize rowBytes height) :: addr)} s'"
  using assms
  by (auto simp: video_buffer_access_def Let_def advances_def copied_length_less
           split: option.splits if_splits prod.splits bool.splits
           dest!: arg_cong [where f = snd])

lemma legacy_access_run:
  assumes "legacy_access f bufferSize rowBytes height s = (r, s')"
  shows "(r = 0 \<or> r = 1) \<and>
         advances s {0 ..< uint (scast (copySize bufferSize rowBytes height) :: addr)} s'"
  using assms
  by (auto simp: legacy_access_def Let_def advances_def copied_length_less
           split: option.splits if_splits prod.splits bool.splits
           dest!: arg_cong [where f = snd])

lemma LegacyThenFallback_structure:
  assumes "LegacyThenFallback f bufferSize width height rowBytes s = X"
  shows "(\<exists>s'. X = Inr (1, s') \<and>
            advances s {0 ..< uint (scast (copySize bufferSize rowBytes height) :: addr)} s') \<or>
         (\<exists>sm. X = RawOffsetFallback f bufferSize width height rowBytes sm \<and>
            advances s {0 ..< uint (scast (copySize bufferSize rowBytes height) :: addr)} sm)"
proof -
  let ?E = "{0 ..< uint (scast (copySize bufferSize rowBytes height) :: addr)}"
  let ?s1 = "emit (QI IID_IDeckLinkVideoInputFrame_v14_2_1) s"
  have a1: "advances s ?E ?s1" by (simp add: advances_def)
  obtain hrLegacy legacyFrame where
    q: "QueryInterface f IID_IDeckLinkVideoInputFrame_v14_2_1 = (hrLegacy, legacyFrame)"
    by (cases "QueryInterface f IID_IDeckLinkVideoInputFrame_v14_2_1")
  show ?thesis
  proof (cases "SUCCEEDED hrLegacy \<and> legacyFrame \<noteq> 0")
    case False
    with assms q have "X = RawOffsetFallback f bufferSize width height rowBytes ?s1"
      by (auto simp: LegacyThenFallback_def Let_def)
    with a1 show ?thesis by blast
  next
    case True
    obtain result s2 where l: "legacy_access f bufferSize rowBytes height ?s1 = (result, s2)"
      by (cases "legacy_access f bufferSize rowBytes height ?s1")
    let ?s3 = "emit (ReleaseInterface IID_IDeckLinkVideoInputFrame_v14_2_1) s2"
    have "advances ?s1 ?E s2" using legacy_access_run [OF l] by simp
    moreover have "advances s2 ?E ?s3" by (simp add: advances_def)
    ultimately have a3: "advances s ?E ?s3"
      using a1 by (blast intro: advances_trans)
    have "X = (if result = 1 then Inr (result, ?s3)
               else RawOffsetFallback f bufferSize width height rowBytes ?s3)"
      using assms q True l by (simp add: LegacyThenFallback_def Let_def)
    with a3 show ?thesis by (cases "result = 1") auto
  qed
qed

lemma CopyDeckLinkFrameBytes_structure:
  assumes "CopyDeckLinkFrameBytes f framePtr buffer bufferSize s = X"
  shows "(\<exists>s'. X = Inr (0, s') \<and> advances s {} s') \<or>
         (\<exists>width height rowBytes.
            getWidth f = Some width \<and> getHeight f = Some height \<and> getRowBytes f = Some rowBytes \<and>
            0 <s bufferSize \<and>
            ((\<exists>s'. X = Inr (1, s') \<and>
                advances s {0 ..< uint (scast (copySize bufferSize rowBytes height) :: addr)} s') \<or>
             (\<exists>sm. X = RawOffsetFallback f bufferSize width height rowBytes sm \<and>
                advances s {0 ..< uint (scast (copySize bufferSize rowBytes height) :: addr)} sm)))"
proof (cases "framePtr = 0 \<or> buffer = 0 \<or> bufferSize <=s 0")
  case True
  with assms have "X = Inr (0, s)" by (simp add: CopyDeckLinkFrameBytes_def)
  then show ?thesis by simp
next
  case valid: False
  then have size: "0 <s bufferSize" by (auto simp: word_sle_eq word_sless_alt)
  let ?s1 = "emit (QI IID_IUnknown) s"
  obtain hrTest testUnk where q: "QueryInterface f IID_IUnknown = (hrTest, testUnk)"
    by (cases "QueryInterface f IID_IUnknown")
  show ?thesis
  proof (cases "FAILED hrTest \<or> testUnk = 0")
    case True
    with assms valid q have "X = Inr (0, ?s1)"
      by (simp add: CopyDeckLinkFrameBytes_def Let_def)
    moreover have "advances s {} ?s1" by (simp add: advances_def)
    ultimately show ?thesis by blast
  next
    case unk: False
    let ?s4 = "probe f IID_IDeckLinkVideoInputFrame
                 (probe f IID_IDeckLinkVideoFrame (emit (ReleaseInterface IID_IUnknown) ?s1))"
    have a4: "advances s E ?s4" for E
      by (rule advances_trans [OF _ advances_probe], rule advances_trans [OF _ advances_probe])
         (simp add: advances_def)
    obtain g s5 where g: "read_geometry f ?s4 = (g, s5)"
      by (cases "read_geometry f ?s4")
    have a5: "advances s E s5" for E
      using a4 read_geometry_run(1) [OF g] by (rule advances_trans)
    show ?thesis
    proof (cases g)
      case None
      with assms valid q unk g have "X = Inr (0, s5)"
        by (simp add: CopyDeckLinkFrameBytes_def Let_def)
      with a5 show ?thesis by blast
    next
      case (Some whr)
      obtain width height rowBytes where whr: "whr = (width, height, rowBytes)"
        by (cases whr)
      let ?E = "{0 ..< uint (scast (copySize bufferSize rowBytes height) :: addr)}"
      have geo: "getWidth f = Some width \<and> getHeight f = Some height \<and> getRowBytes f = Some rowBytes"
        using read_geometry_run(2) [OF g] Some whr by simp
      let ?s6 = "emit (QI IID_IDeckLinkVideoBuffer) s5"
      have a6: "advances s ?E ?s6"
        by (rule advances_trans [OF a5]) (simp add: advances_def)
      obtain hr videoBuffer where qv: "QueryInterface f IID_IDeckLinkVideoBuffer = (hr, videoBuffer)"
        by (cases "QueryInterface f IID_IDeckLinkVideoBuffer")
      have "(\<exists>s'. X = Inr (1, s') \<and> advances s ?E s') \<or>
            (\<exists>sm. X = RawOffsetFallback f bufferSize width height rowBytes sm \<and> advances s ?E sm)"
      proof (cases "SUCCEEDED hr \<and> videoBuffer \<noteq> 0")
        case False
        with assms valid q unk g Some whr qv
        have "X = LegacyThenFallback f bufferSize width height rowBytes ?s6"
          by (auto simp: CopyDeckLinkFrameBytes_def Let_def)
        from LegacyThenFallback_structure [OF this [symmetric]] a6
        show ?thesis by (blast intro: advances_trans)
      next
        case True
        obtain result s7 where v: "video_buffer_access f bufferSize rowBytes height ?s6 = (result, s7)"
          by (cases "video_buffer_access f bufferSize rowBytes height ?s6")
        let ?s8 = "emit (ReleaseInterface IID_IDeckLinkVideoBuffer) s7"
        have "advances ?s6 ?E s7" using video_buffer_access_run [OF v] by simp
        moreover have "advances s7 ?E ?s8" by (simp add: advances_def)
        ultimately have a8: "advances s ?E ?s8"
          using a6 by (blast intro: advances_trans)
        have X: "X = (if result = 1 then Inr (result, ?s8)
                   else LegacyThenFallback f bufferSize width height rowBytes ?s8)"
          using assms valid q unk g Some whr qv True v
          by (simp add: CopyDeckLinkFrameBytes_def Let_def)
        show ?thesis
        proof (cases "result = 1")
          case True
          with X a8 show ?thesis by auto
        next
          case False
          with X have "X = LegacyThenFallback f bufferSize width height rowBytes ?s8" by simp
          from LegacyThenFallback_structure [OF this [symmetric]] a8
          show ?thesis by (blast intro: advances_trans)
        qed
      qed
      with geo size show ?thesis by blast
    qed
  qed
qed

subsection \<open>The raw-offset fallback\<close>

lemma new_events_append [simp]: "events s' = events s @ es \<Longrightarrow> new_events s s' = es"
  by (simp add: new_events_def)

lemma advances_new_events:
  "advances s E s' \<Longrightarrow> quiet (new_events s s') \<and> events s' = events s @ new_events s s'"
  unfolding advances_def by auto

lemma uint_scast_size: "0 <s (bufferSize :: int32) \<Longrightarrow> uint (scast bufferSize :: addr) = sint bufferSize"
  by (simp add: word_sless_alt uint_scast_nonneg)

lemma sint_half:
  assumes "0 <s (bufferSize :: int32)"
  shows "sint (c_div bufferSize 2) = sint bufferSize div 2"
proof -
  have pos: "0 < sint bufferSize" using assms by (simp add: word_sless_alt)
  have "sint bufferSize sdiv 2 = sint bufferSize div 2"
    using pos by (simp add: signed_divide_int_def)
  moreover have "signed_take_bit 31 (sint bufferSize div 2) = sint bufferSize div 2"
    using pos sint_bounds32(2) [of bufferSize]
    by (intro signed_take_bit_int_eq_self) simp_all
  ultimately show ?thesis
    by (simp add: c_div_def sint_sbintrunc')
qed

lemma finish_cases:
  assumes "finish bufferSize width height rowBytes bytesCopied s = X"
  shows "(\<not> c_div bufferSize 2 <s bytesCopied \<and> X = Inr (0, emit Release s)) \<or>
         (c_div bufferSize 2 <s bytesCopied \<and>
            LooksLikeCorruptBGRA (dest s) width height rowBytes = None \<and> X = Inl DivideByZero) \<or>
         (c_div bufferSize 2 <s bytesCopied \<and>
            (\<exists>v. LooksLikeCorruptBGRA (dest s) width height rowBytes = Some v \<and>
               X = Inr (if v then - 1 else 1,
                        emit Release ((emit Detector s)
                          \<lparr>probed := probed s \<union> sample_reads width height rowBytes\<rparr>))))"
proof (cases "c_div bufferSize 2 <s bytesCopied")
  case False
  with assms show ?thesis by (simp add: finish_def)
next
  case True
  show ?thesis
  proof (cases "LooksLikeCorruptBGRA (dest s) width height rowBytes")
    case None
    with assms True show ?thesis by (simp add: finish_def)
  next
    case (Some v)
    with assms True have "X = Inr (if v then - 1 else 1,
                        emit Release ((emit Detector s)
                          \<lparr>probed := probed s \<union> sample_reads width height rowBytes\<rparr>))"
      by (simp add: finish_def)
    with True Some show ?thesis by blast
  qed
qed

lemma RawOffsetFallback_rejects:
  assumes "offset280 f < 0x10000 \<or> 0x7FFF00000000 \<le> offset280 f"
  shows "RawOffsetFallback f bufferSize width height rowBytes s =
           Inr (0, s\<lparr>events := events s @ [AddRef, ReadOffset280, Release]\<rparr>)"
  using assms by (auto simp: RawOffsetFallback_def Let_def emit_def)

lemma RawOffsetFallback_copies:
  assumes "\<not> (offset280 f < 0x10000 \<or> 0x7FFF00000000 \<le> offset280 f)"
  shows "RawOffsetFallback f bufferSize width height rowBytes s =
           (case raw_copy f (offset280 f) bufferSize (emit ReadOffset280 (emit AddRef s)) of
              None \<Rightarrow> Inl NoReturn
            | Some (bytesCopied, s3) \<Rightarrow> finish bufferSize width height rowBytes bytesCopied s3)"
proof -
  have "offset280 f \<noteq> 0" using assms by auto
  with assms show ?thesis
    by (simp add: RawOffsetFallback_def Let_def)
qed

lemma RawOffsetFallback_structure:
  assumes run: "RawOffsetFallback f bufferSize width height rowBytes s = Inr (r, s')"
  shows "(r = 0 \<and> events s' = events s @ [AddRef, ReadOffset280, Release] \<and>
            probed s' = probed s) \<or>
         (events s' = events s @ [AddRef, ReadOffset280, Detector, Release] \<and>
            probed s' = probed s \<union> sample_reads width height rowBytes \<and>
            (\<exists>v. LooksLikeCorruptBGRA (dest s') width height rowBytes = Some v \<and>
               r = (if v then - 1 else 1)))"
proof (cases "offset280 f < 0x10000 \<or> 0x7FFF00000000 \<le> offset280 f")
  case True
  have "Inr (0, s\<lparr>events := events s @ [AddRef, ReadOffset280, Release]\<rparr>) = Inr (r, s')"
    using run RawOffsetFallback_rejects [OF True] by simp
  then have "r = 0" "s' = s\<lparr>events := events s @ [AddRef, ReadOffset280, Release]\<rparr>"
    by simp_all
  then show ?thesis by simp
next
  case False
  define s2 where "s2 = emit ReadOffset280 (emit AddRef s)"
  have "(case raw_copy f (offset280 f) bufferSize s2 of
              None \<Rightarrow> Inl NoReturn
            | Some (bytesCopied, s3) \<Rightarrow> finish bufferSize width height rowBytes bytesCopied s3)
        = Inr (r, s')"
    using run RawOffsetFallback_copies [OF False] s2_def by simp
  then obtain bc s3 where
    c: "raw_copy f (offset280 f) bufferSize s2 = Some (bc, s3)" and
    fin: "finish bufferSize width height rowBytes bc s3 = Inr (r, s')"
    by (cases "raw_copy f (offset280 f) bufferSize s2") auto
  have q: "events s3 = events s @ [AddRef, ReadOffset280]" "probed s3 = probed s"
    using raw_copy_quiet [OF c] by (simp_all add: s2_def)
  from finish_cases [OF fin] show ?thesis
  proof (elim disjE conjE exE)
    assume "Inr (r, s') = Inr (0, emit Release s3)"
    then have "r = 0" "s' = emit Release s3" by simp_all
    with q show ?thesis by simp
  next
    assume "Inr (r, s') = Inl DivideByZero"
    then show ?thesis by simp
  next
    fix v
    assume v: "LooksLikeCorruptBGRA (dest s3) width height rowBytes = Some v"
      and "Inr (r, s') = Inr (if v then - 1 else 1,
              emit Release ((emit Detector s3)
                \<lparr>probed := probed s3 \<union> sample_reads width height rowBytes\<rparr>))"
    then have r: "r = (if v then - 1 else 1)"
      and s': "s' = emit Release ((emit Detector s3)
                \<lparr>probed := probed s3 \<union> sample_reads width height rowBytes\<rparr>)"
      by simp_all
    have "events s' = events s @ [AddRef, ReadOffset280, Detector, Release]"
      "probed s' = probed s \<union> sample_reads width height rowBytes" "dest s' = dest s3"
      using q by (simp_all add: s')
    with v r show ?thesis by simp
  qed
qed

lemma RawOffsetFallback_results:
  assumes run: "RawOffsetFallback f bufferSize width height rowBytes s = Inr (r, s')"
  shows "r = 0 \<or> r = 1 \<or> r = - 1"
  using RawOffsetFallback_structure [OF run] by (elim disjE conjE exE) (simp_all split: if_splits)

lemma raw_copy_stored:
  assumes c: "raw_copy f src bufferSize s = Some (bc, s3)"
    and size: "0 <s bufferSize"
  shows "stored s3 \<subseteq> stored s \<union> {0 ..< round4 (sint bufferSize)}"
    and "copy_stops f src (unat (scast bufferSize :: addr)) = None \<Longrightarrow>
           stored s3 \<subseteq> stored s \<union> {0 ..< sint bufferSize}"
proof -
  define m where "m = snd (memcpy f 0 src (scast bufferSize) s)"
  have le: "sint bufferSize \<le> round4 (sint bufferSize)"
    unfolding round4_def by presburger
  have "stored m = stored s \<union> {0 ..< 0 + int (copied_length f src (scast bufferSize))}"
    unfolding m_def by (rule memcpy_fields(3))
  moreover have "int (copied_length f src (scast bufferSize)) \<le> sint bufferSize"
    using copied_length_uint [of f src "scast bufferSize"] uint_scast_size [OF size] by simp
  ultimately have m: "stored m \<subseteq> stored s \<union> {0 ..< sint bufferSize}"
    by auto
  have ok: "stored s3 \<subseteq> stored s \<union> {0 ..< sint bufferSize}"
    if "copy_stops f src (unat (scast bufferSize :: addr)) = None"
  proof -
    have "Some (bufferSize, m) = Some (bc, s3)"
      using c unfolding raw_copy_bulk_ok [OF that] m_def .
    then have "m = s3" by (simp only: option.inject prod.inject)
    with m show ?thesis by simp
  qed
  then show "copy_stops f src (unat (scast bufferSize :: addr)) = None \<Longrightarrow>
           stored s3 \<subseteq> stored s \<union> {0 ..< sint bufferSize}" .
  show "stored s3 \<subseteq> stored s \<union> {0 ..< round4 (sint bufferSize)}"
  proof (cases "copy_stops f src (unat (scast bufferSize :: addr)) = None")
    case True
    from ok [OF True] le show ?thesis by auto
  next
    case False
    have "chunk_loop f src bufferSize 0 0 m = Some (bc, s3)"
      using c unfolding raw_copy_bulk_fault [OF False] m_def .
    then have "stored s3 \<subseteq> stored m \<union> {0 ..< round4 (sint bufferSize)}"
      by (rule chunk_loop_stored)
    moreover have "{0 ..< sint bufferSize} \<subseteq> {0 ..< round4 (sint bufferSize)}"
      using le by simp
    ultimately show ?thesis using m by blast
  qed
qed

lemma RawOffsetFallback_stored:
  assumes run: "RawOffsetFallback f bufferSize width height rowBytes s = Inr (r, s')"
    and size: "0 <s bufferSize"
  shows "stored s' \<subseteq> stored s \<union> {0 ..< round4 (sint bufferSize)}"
    and "copy_stops f (offset280 f) (unat (scast bufferSize :: addr)) = None \<Longrightarrow>
           stored s' \<subseteq> stored s \<union> {0 ..< sint bufferSize}"
proof -
  have "stored s' \<subseteq> stored s \<union> {0 ..< round4 (sint bufferSize)} \<and>
        (copy_stops f (offset280 f) (unat (scast bufferSize :: addr)) = None \<longrightarrow>
           stored s' \<subseteq> stored s \<union> {0 ..< sint bufferSize})"
  proof (cases "offset280 f < 0x10000 \<or> 0x7FFF00000000 \<le> offset280 f")
    case True
    have "Inr (0, s\<lparr>events := events s @ [AddRef, ReadOffset280, Release]\<rparr>) = Inr (r, s')"
      using run RawOffsetFallback_rejects [OF True] by simp
    then have "s' = s\<lparr>events := events s @ [AddRef, ReadOffset280, Release]\<rparr>" by simp
    then have "stored s' = stored s" by simp
    then show ?thesis by simp
  next
    case False
    define s2 where "s2 = emit ReadOffset280 (emit AddRef s)"
    have s2: "stored s2 = stored s" by (simp add: s2_def)
    have "(case raw_copy f (offset280 f) bufferSize s2 of
              None \<Rightarrow> Inl NoReturn
            | Some (bytesCopied, s3) \<Rightarrow> finish bufferSize width height rowBytes bytesCopied s3)
        = Inr (r, s')"
      using run RawOffsetFallback_copies [OF False] s2_def by simp
    then obtain bc s3 where
      c: "raw_copy f (offset280 f) bufferSize s2 = Some (bc, s3)" and
      fin: "finish bufferSize width height rowBytes bc s3 = Inr (r, s')"
      by (cases "raw_copy f (offset280 f) bufferSize s2") auto
    have s': "stored s' = stored s3"
      using finish_cases [OF fin] by (elim disjE conjE exE) simp_all
    show ?thesis
      using raw_copy_stored [OF c size] unfolding s' s2 by simp
  qed
  then show "stored s' \<subseteq> stored s \<union> {0 ..< round4 (sint bufferSize)}"
    and "copy_stops f (offset280 f) (unat (scast bufferSize :: addr)) = None \<Longrightarrow>
           stored s' \<subseteq> stored s \<union> {0 ..< sint bufferSize}"
    by simp_all
qed

subsection \<open>Events of a call; runs on the concrete frames\<close>

lemma quiet_not_fallback:
  "quiet es \<Longrightarrow> ReadOffset280 \<notin> set es \<and> AddRef \<notin> set es \<and> Release \<notin> set es \<and> Detector \<notin> set es"
  by (auto simp: quiet_def)

lemma advances_no_fallback:
  assumes "advances s E s'"
  shows "ReadOffset280 \<notin> set (new_events s s')" "Detector \<notin> set (new_events s s')"
    "AddRef \<notin> set (new_events s s')" "Release \<notin> set (new_events s s')"
proof -
  have "quiet (new_events s s')"
    using advances_new_events [OF assms] by (rule conjunct1)
  from quiet_not_fallback [OF this]
  show "ReadOffset280 \<notin> set (new_events s s')" "Detector \<notin> set (new_events s s')"
    "AddRef \<notin> set (new_events s s')" "Release \<notin> set (new_events s s')"
    by blast+
qed

lemma new_events_after:
  assumes "advances s E sm" "events s' = events sm @ es"
  shows "new_events s s' = new_events s sm @ es"
proof -
  have "events sm = events s @ new_events s sm"
    using advances_new_events [OF assms(1)] by (rule conjunct2)
  then have "events s' = events s @ (new_events s sm @ es)"
    unfolding assms(2) by (simp only: append_assoc)
  then show ?thesis by (rule new_events_append)
qed

lemma QueryInterface_frame0:
  "QueryInterface frame0 IID_IUnknown = (0, 0x1000)"
  "i \<noteq> IID_IUnknown \<Longrightarrow> QueryInterface frame0 i = (0x80004002, 0)"
  by (simp_all add: frame0_def)

lemma HRESULT_simps [simp]:
  "SUCCEEDED 0" "\<not> FAILED 0" "\<not> SUCCEEDED 0x80004002" "\<not> SUCCEEDED 0x80004005"
  by (simp_all add: SUCCEEDED_def FAILED_def word_sle_eq word_sless_alt)

lemma CopyDeckLinkFrameBytes_no_interfaces:
  assumes "QueryInterface f = QueryInterface frame0"
    and "getWidth f = Some width" "getHeight f = Some height" "getRowBytes f = Some rowBytes"
    and "getPixelFormat f = Some pixelFormat"
    and "0 <s bufferSize"
  shows "CopyDeckLinkFrameBytes f 0x1000 0x2000 bufferSize s =
           RawOffsetFallback f bufferSize width height rowBytes
             (s\<lparr>events := events s @
                [QI IID_IUnknown, ReleaseInterface IID_IUnknown, QI IID_IDeckLinkVideoFrame,
                 QI IID_IDeckLinkVideoInputFrame, GetWidth, GetHeight, GetRowBytes,
                 GetPixelFormat, QI IID_IDeckLinkVideoBuffer,
                 QI IID_IDeckLinkVideoInputFrame_v14_2_1]\<rparr>)"
proof -
  have "\<not> bufferSize <=s 0"
    using assms(6) by (simp add: word_sle_eq word_sless_alt)
  then show ?thesis
    using assms(1-5)
    by (simp add: CopyDeckLinkFrameBytes_def LegacyThenFallback_def probe_def read_geometry_def
          QueryInterface_frame0 emit_def Let_def)
qed

lemma RawOffsetFallback_complete:
  assumes ptr: "\<not> (offset280 f < 0x10000 \<or> 0x7FFF00000000 \<le> offset280 f)"
    and bulk: "copy_stops f (offset280 f) (unat (scast bufferSize :: addr)) = None"
    and size: "0 <s bufferSize"
    and geo: "height \<noteq> 0" "width * 2 - 4 \<noteq> 0"
  shows "\<exists>r s'. RawOffsetFallback f bufferSize width height rowBytes s = Inr (r, s') \<and> r \<noteq> 0 \<and>
           events s' = events s @ [AddRef, ReadOffset280, Detector, Release] \<and>
           stored s' = stored s \<union> {0 ..< sint bufferSize} \<and>
           probed s' = probed s \<union> sample_reads width height rowBytes"
proof -
  define s3 where "s3 = snd (memcpy f 0 (offset280 f) (scast bufferSize) (emit ReadOffset280 (emit AddRef s)))"
  have pos: "0 < sint bufferSize" using size by (simp add: word_sless_alt)
  have half: "c_div bufferSize 2 <s bufferSize"
    using sint_half [OF size] pos by (simp add: word_sless_alt)
  obtain v where v: "LooksLikeCorruptBGRA (dest s3) width height rowBytes = Some v"
    using geo by (simp add: LooksLikeCorruptBGRA_def)
  have len: "int (copied_length f (offset280 f) (scast bufferSize)) = sint bufferSize"
    using bulk pos by (simp add: copied_length_complete uint_scast_size [OF size])
  have s3: "events s3 = events s @ [AddRef, ReadOffset280]" "probed s3 = probed s"
    "stored s3 = stored s \<union> {0 ..< sint bufferSize}"
    using len by (simp_all add: s3_def)
  have "RawOffsetFallback f bufferSize width height rowBytes s =
      finish bufferSize width height rowBytes bufferSize s3"
    by (simp add: RawOffsetFallback_copies [OF ptr] raw_copy_bulk_ok [OF bulk] s3_def)
  also have "\<dots> = Inr (if v then - 1 else 1,
      emit Release ((emit Detector s3)\<lparr>probed := probed s3 \<union> sample_reads width height rowBytes\<rparr>))"
    using half v by (simp add: finish_def)
  finally have run: "RawOffsetFallback f bufferSize width height rowBytes s =
      Inr (if v then - 1 else 1,
      emit Release ((emit Detector s3)\<lparr>probed := probed s3 \<union> sample_reads width height rowBytes\<rparr>))" .
  show ?thesis
    unfolding run using s3 by (intro exI conjI) (rule refl, simp_all)
qed

subsection \<open>The IDeckLinkVideoBuffer path with and without a fault\<close>

lemma video_buffer_access_fault:
  assumes "startAccess f = Some hr" "SUCCEEDED hr"
    and "getBytes f = None \<or>
         (\<exists>hr' srcPtr. getBytes f = Some (hr', srcPtr) \<and> SUCCEEDED hr' \<and> srcPtr \<noteq> 0 \<and>
            unat (scast (copySize bufferSize rowBytes height) :: addr) \<noteq> 0 \<and>
            copy_stops f srcPtr (unat (scast (copySize bufferSize rowBytes height) :: addr)) \<noteq> None)"
  shows "fst (video_buffer_access f bufferSize rowBytes height s) = 0 \<and>
         events (snd (video_buffer_access f bufferSize rowBytes height s)) =
           events s @ [StartAccess, GetBytes]"
  using assms
  by (auto simp: video_buffer_access_def Let_def memcpy_def)

lemma video_buffer_access_no_fault:
  assumes "startAccess f = Some hr" "SUCCEEDED hr" "getBytes f = Some (hr', srcPtr)"
    and "\<not> (SUCCEEDED hr' \<and> srcPtr \<noteq> 0) \<or>
         (copy_stops f srcPtr (unat (scast (copySize bufferSize rowBytes height) :: addr)) = None \<and>
          \<not> log_read_faults f)"
  shows "events (snd (video_buffer_access f bufferSize rowBytes height s)) =
           events s @ [StartAccess, GetBytes, EndAccess]"
  using assms
  by (auto simp: video_buffer_access_def Let_def memcpy_def)

subsection \<open>A failing StartAccess\<close>

lemma legacy_absent:
  assumes "QueryInterface f IID_IDeckLinkVideoInputFrame_v14_2_1 = (hrLegacy, legacyFrame)"
    and "\<not> (SUCCEEDED hrLegacy \<and> legacyFrame \<noteq> 0)"
  shows "LegacyThenFallback f bufferSize width height rowBytes s =
           RawOffsetFallback f bufferSize width height rowBytes
             (emit (QI IID_IDeckLinkVideoInputFrame_v14_2_1) s)"
  using assms by (auto simp: LegacyThenFallback_def Let_def)

lemma start_access_failure_run:
  assumes args: "framePtr \<noteq> 0" "buffer \<noteq> 0" "0 <s bufferSize"
    and unk: "QueryInterface f IID_IUnknown = (hrTest, testUnk)" "\<not> FAILED hrTest" "testUnk \<noteq> 0"
    and geo: "getWidth f = Some width" "getHeight f = Some height" "getRowBytes f = Some rowBytes"
      "getPixelFormat f = Some pixelFormat"
    and modern: "QueryInterface f IID_IDeckLinkVideoBuffer = (hr, videoBuffer)"
      "SUCCEEDED hr" "videoBuffer \<noteq> 0"
    and start: "\<forall>hrStart. startAccess f = Some hrStart \<longrightarrow> \<not> SUCCEEDED hrStart"
    and legacy: "QueryInterface f IID_IDeckLinkVideoInputFrame_v14_2_1 = (hrLegacy, legacyFrame)"
      "\<not> (SUCCEEDED hrLegacy \<and> legacyFrame \<noteq> 0)"
  shows "CopyDeckLinkFrameBytes f framePtr buffer bufferSize s =
           RawOffsetFallback f bufferSize width height rowBytes
             (emit (QI IID_IDeckLinkVideoInputFrame_v14_2_1)
               (emit (ReleaseInterface IID_IDeckLinkVideoBuffer)
                 (emit StartAccess
                   (emit (QI IID_IDeckLinkVideoBuffer)
                     (emit GetPixelFormat (emit GetRowBytes (emit GetHeight (emit GetWidth
                       (probe f IID_IDeckLinkVideoInputFrame
                         (probe f IID_IDeckLinkVideoFrame
                           (emit (ReleaseInterface IID_IUnknown)
                             (emit (QI IID_IUnknown) s))))))))))))"
proof -
  have "\<not> bufferSize <=s 0"
    using args(3) by (simp add: word_sle_eq word_sless_alt)
  have vb: "video_buffer_access f bufferSize rowBytes height t = (0, emit StartAccess t)" for t
    using start by (cases "startAccess f") (simp_all add: video_buffer_access_def Let_def)
  from \<open>\<not> bufferSize <=s 0\<close> show ?thesis
    using args(1,2) unk geo modern
    by (simp add: CopyDeckLinkFrameBytes_def legacy_absent [OF legacy] read_geometry_def
          vb Let_def)
qed

lemma modern_only_run:
  "\<exists>r s'. CopyDeckLinkFrameBytes frame_modern_only 0x1000 0x2000 16 s0 = Inr (r, s') \<and>
     r \<noteq> 0 \<and> ReadOffset280 \<in> set (events s')"
proof -
  have run: "CopyDeckLinkFrameBytes frame_modern_only 0x1000 0x2000 16 s0 =
      RawOffsetFallback frame_modern_only 16 1920 1080 3840
             (emit (QI IID_IDeckLinkVideoInputFrame_v14_2_1)
               (emit (ReleaseInterface IID_IDeckLinkVideoBuffer)
                 (emit StartAccess
                   (emit (QI IID_IDeckLinkVideoBuffer)
                     (emit GetPixelFormat (emit GetRowBytes (emit GetHeight (emit GetWidth
                       (probe frame_modern_only IID_IDeckLinkVideoInputFrame
                         (probe frame_modern_only IID_IDeckLinkVideoFrame
                           (emit (ReleaseInterface IID_IUnknown)
                             (emit (QI IID_IUnknown) s0))))))))))))"
    by (rule start_access_failure_run
          [where hrTest = 0 and testUnk = "0x1000" and pixelFormat = "0x32767579" and hr = 0
             and videoBuffer = "0x1000" and hrLegacy = "0x80004002"
             and legacyFrame = 0])
       (simp_all add: frame_modern_only_def frame0_def word_sless_alt)
  have "\<exists>r s'. RawOffsetFallback frame_modern_only 16 1920 1080 3840 s = Inr (r, s') \<and> r \<noteq> 0 \<and>
           events s' = events s @ [AddRef, ReadOffset280, Detector, Release] \<and>
           stored s' = stored s \<union> {0 ..< sint (16 :: int32)} \<and>
           probed s' = probed s \<union> sample_reads 1920 1080 3840" for s
    by (rule RawOffsetFallback_complete)
       (simp_all add: frame_modern_only_def frame0_def unat_scast_nonneg word_sless_alt)
  then show ?thesis unfolding run by fastforce
qed

subsection \<open>A run that copies exactly half\<close>

lemma frame_half_copy:
  "\<exists>s3. raw_copy frame_half 0x20000 131072 s = Some (65536, s3)"
proof -
  have range: "sint (131072 :: int32) \<le> 2 ^ 31 - 65536" by simp
  have k: "65536 * int 1 < sint (131072 :: int32)" by simp
  have tc: "thisChunk 0 131072 = 65536" "thisChunk 65536 131072 = 65536"
    by (simp_all add: thisChunk_def chunkSize_def)
  have cp: "chunk_pos 0 = 0" "chunk_pos 1 = 65536" "chunk_pos (Suc 0) = 65536"
    by (simp_all add: chunk_pos_def chunkSize_def)
  have faults: "chunk_faults frame_half 0x20000 131072 1"
    by (simp add: chunk_faults_def cp tc frame_half_def frame0_def)
  have others: "\<forall>j. j \<noteq> 1 \<and> 65536 * int j < sint (131072 :: int32) \<longrightarrow>
      \<not> chunk_faults frame_half 0x20000 131072 j"
  proof (intro allI impI)
    fix j :: nat
    assume "j \<noteq> 1 \<and> 65536 * int j < sint (131072 :: int32)"
    then have "j = 0" by auto
    then show "\<not> chunk_faults frame_half 0x20000 131072 j"
      by (simp add: chunk_faults_def cp tc frame_half_def frame0_def)
  qed
  have bulk: "copy_stops frame_half 0x20000 (unat (scast (131072 :: int32) :: addr)) \<noteq> None"
    by (simp add: frame_half_def frame0_def unat_scast_nonneg)
  from chunk_loop_one_fault [OF range k faults others,
      of "snd (memcpy frame_half 0 0x20000 (scast (131072 :: int32)) s)"]
  show ?thesis
    unfolding raw_copy_bulk_fault [OF bulk] by (auto simp: cp tc)
qed

lemma half_131072: "c_div 131072 2 = 65536"
  by (simp add: c_div_def signed_divide_int_def)

lemma frame_half_fallback:
  "\<exists>s3. raw_copy frame_half 0x20000 131072 (emit ReadOffset280 (emit AddRef s)) = Some (65536, s3) \<and>
     RawOffsetFallback frame_half 131072 width height rowBytes s = Inr (0, emit Release s3) \<and>
     events (emit Release s3) = events s @ [AddRef, ReadOffset280, Release]"
proof -
  obtain s3 where c: "raw_copy frame_half 0x20000 131072 (emit ReadOffset280 (emit AddRef s)) = Some (65536, s3)"
    using frame_half_copy by blast
  have ptr: "\<not> (offset280 frame_half < 0x10000 \<or> 0x7FFF00000000 \<le> offset280 frame_half)"
    by (simp add: frame_half_def frame0_def)
  have o: "offset280 frame_half = 0x20000" by (simp add: frame_half_def frame0_def)
  have "RawOffsetFallback frame_half 131072 width height rowBytes s =
      finish 131072 width height rowBytes 65536 s3"
    unfolding RawOffsetFallback_copies [OF ptr] o c by simp
  also have "\<dots> = Inr (0, emit Release s3)"
    by (simp add: finish_def half_131072)
  finally have r: "RawOffsetFallback frame_half 131072 width height rowBytes s = Inr (0, emit Release s3)" .
  have "events s3 = events s @ [AddRef, ReadOffset280]"
    using raw_copy_quiet [OF c] by simp
  then have "events (emit Release s3) = events s @ [AddRef, ReadOffset280, Release]" by simp
  with c r show ?thesis by blast
qed

subsection \<open>Runs that leave the destination buffer\<close>

lemma frame_fill_copy:
  "raw_copy frame_fill 0x20000 6 s =
     Some (0, fill_black 0 0 6 (snd (memcpy frame_fill 0 0x20000 6
               (snd (memcpy frame_fill 0 0x20000 6 s)))))"
proof -
  have tc: "thisChunk 0 6 = 6"
    by (simp add: thisChunk_def chunkSize_def word_sle_eq)
  have sc: "(scast (6 :: int32) :: addr) = 6" by simp
  have bulk: "copy_stops frame_fill 0x20000 (unat (scast (6 :: int32) :: addr)) \<noteq> None"
    by (simp add: frame_fill_def frame0_def)
  have ch: "copy_stops frame_fill (0x20000 + scast (0 :: int32))
      (unat (scast (thisChunk 0 6) :: addr)) \<noteq> None"
    by (simp add: frame_fill_def frame0_def)
  have lt: "(0 :: int32) <s 6" by (simp add: word_sless_alt)
  have nlt: "\<not> (65536 :: int32) <s 6" by (simp add: word_sless_alt)
  have "chunk_loop frame_fill 0x20000 6 0 0 t =
      chunk_loop frame_fill 0x20000 6 65536 (fst (chunk_body frame_fill 0x20000 6 0 0 t))
        (snd (chunk_body frame_fill 0x20000 6 0 0 t))" for t
    by (subst chunk_loop.simps) (simp add: lt chunkSize_def)
  also have "\<dots> t = Some (fst (chunk_body frame_fill 0x20000 6 0 0 t),
        snd (chunk_body frame_fill 0x20000 6 0 0 t))" for t
    by (subst chunk_loop.simps) (simp add: nlt)
  finally have loop: "chunk_loop frame_fill 0x20000 6 0 0 t =
      Some (fst (chunk_body frame_fill 0x20000 6 0 0 t),
        snd (chunk_body frame_fill 0x20000 6 0 0 t))" for t .
  show ?thesis
    unfolding raw_copy_bulk_fault [OF bulk] loop chunk_body_fault [OF ch lt]
    by (simp add: tc sc)
qed

lemma fill_end_6: "fill_end 0 6 = 8"
  by (simp add: fill_end_def)

lemma frame_fill_run:
  "\<exists>s'. CopyDeckLinkFrameBytes frame_fill 0x1000 0x2000 6 s0 = Inr (0, s') \<and>
     stored s' = {0 ..< 8} \<and> dest s' 6 = 0x80 \<and> dest s' 7 = 0x10"
proof -
  define sm where "sm = s0\<lparr>events := events s0 @
                [QI IID_IUnknown, ReleaseInterface IID_IUnknown, QI IID_IDeckLinkVideoFrame,
                 QI IID_IDeckLinkVideoInputFrame, GetWidth, GetHeight, GetRowBytes,
                 GetPixelFormat, QI IID_IDeckLinkVideoBuffer,
                 QI IID_IDeckLinkVideoInputFrame_v14_2_1]\<rparr>"
  define s1 where "s1 = snd (memcpy frame_fill 0 0x20000 6
               (snd (memcpy frame_fill 0 0x20000 6 (emit ReadOffset280 (emit AddRef sm)))))"
  have run: "CopyDeckLinkFrameBytes frame_fill 0x1000 0x2000 6 s0 =
      RawOffsetFallback frame_fill 6 1920 1080 3840 sm"
    unfolding sm_def
    by (rule CopyDeckLinkFrameBytes_no_interfaces [where pixelFormat = "0x32767579"])
       (simp_all add: frame_fill_def frame0_def word_sless_alt)
  have ptr: "\<not> (offset280 frame_fill < 0x10000 \<or> 0x7FFF00000000 \<le> offset280 frame_fill)"
    by (simp add: frame_fill_def frame0_def)
  have o: "offset280 frame_fill = 0x20000" by (simp add: frame_fill_def frame0_def)
  have half: "\<not> c_div 6 2 <s (0 :: int32)"
    by (simp add: c_div_def signed_divide_int_def word_sless_alt)
  have fb: "RawOffsetFallback frame_fill 6 1920 1080 3840 sm =
      Inr (0, emit Release (fill_black 0 0 6 s1))"
    unfolding RawOffsetFallback_copies [OF ptr] o frame_fill_copy s1_def
    by (simp add: finish_def half)
  have cl: "copied_length frame_fill 0x20000 6 = 0"
    by (simp add: copied_length_def frame_fill_def frame0_def)
  have st1: "stored s1 = {}"
    by (simp add: s1_def cl sm_def s0_def emit_def)
  have st: "stored (emit Release (fill_black 0 0 6 s1)) = {0 ..< 8}"
    by (simp add: emit_def fill_black_stored fill_end_6 st1)
  have d: "dest (emit Release (fill_black 0 0 6 s1)) 6 = 0x80"
    "dest (emit Release (fill_black 0 0 6 s1)) 7 = 0x10"
    by (simp_all add: emit_def fill_black_dest fill_end_6 neutral_def)
  show ?thesis
    unfolding run fb using st d by blast
qed

lemma sample_1_offset: "sample_offset 1920 1080 3840 1 = 503376"
  by (simp add: sample_offset_def c_rem_def signed_modulo_int_def Let_def)

lemma sample_1_read: "503376 \<in> sample_reads 1920 1080 3840"
proof -
  have "sint (sample_offset 1920 1080 3840 1 + 0) \<in> sample_reads 1920 1080 3840"
    unfolding sample_reads_def samples_def
    by (rule UN_I [where a = 1], simp, rule UN_I [where a = 0], simp, simp)
  then show ?thesis unfolding sample_1_offset by simp
qed

lemma frame0_run:
  "\<exists>r s'. CopyDeckLinkFrameBytes frame0 0x1000 0x2000 16 s0 = Inr (r, s') \<and> r \<noteq> 0 \<and>
     stored s' = {0 ..< 16} \<and> probed s' = sample_reads 1920 1080 3840"
proof -
  define sm where "sm = s0\<lparr>events := events s0 @
                [QI IID_IUnknown, ReleaseInterface IID_IUnknown, QI IID_IDeckLinkVideoFrame,
                 QI IID_IDeckLinkVideoInputFrame, GetWidth, GetHeight, GetRowBytes,
                 GetPixelFormat, QI IID_IDeckLinkVideoBuffer,
                 QI IID_IDeckLinkVideoInputFrame_v14_2_1]\<rparr>"
  have run: "CopyDeckLinkFrameBytes frame0 0x1000 0x2000 16 s0 =
      RawOffsetFallback frame0 16 1920 1080 3840 sm"
    unfolding sm_def
    by (rule CopyDeckLinkFrameBytes_no_interfaces [where pixelFormat = "0x32767579"])
       (simp_all add: frame0_def word_sless_alt)
  have "\<exists>r s'. RawOffsetFallback frame0 16 1920 1080 3840 sm = Inr (r, s') \<and> r \<noteq> 0 \<and>
           events s' = events sm @ [AddRef, ReadOffset280, Detector, Release] \<and>
           stored s' = stored sm \<union> {0 ..< sint (16 :: int32)} \<and>
           probed s' = probed sm \<union> sample_reads 1920 1080 3840"
    by (rule RawOffsetFallback_complete)
       (simp_all add: frame0_def unat_scast_nonneg word_sless_alt)
  then show ?thesis unfolding run by (auto simp: sm_def s0_def)
qed

lemma degenerate_geometry_run:
  assumes "QueryInterface f = QueryInterface frame0" "copy_stops f = copy_stops frame0"
    "offset280 f = 0x20000"
    and "getWidth f = Some width" "getHeight f = Some height" "getRowBytes f = Some rowBytes"
    and "getPixelFormat f = Some pixelFormat"
    and "height = 0 \<or> width * 2 - 4 = 0"
  shows "CopyDeckLinkFrameBytes f 0x1000 0x2000 16 s0 = Inl DivideByZero"
proof -
  have sz: "(0 :: int32) <s 16" by (simp add: word_sless_alt)
  have ptr: "\<not> (offset280 f < 0x10000 \<or> 0x7FFF00000000 \<le> offset280 f)"
    using assms(3) by simp
  have bulk: "copy_stops f (offset280 f) (unat (scast (16 :: int32) :: addr)) = None"
    using assms(2) by (simp add: frame0_def)
  have half: "c_div 16 2 <s (16 :: int32)"
    by (simp add: c_div_def signed_divide_int_def word_sless_alt)
  show ?thesis
    unfolding CopyDeckLinkFrameBytes_no_interfaces [OF assms(1,4,5,6,7) sz]
      RawOffsetFallback_copies [OF ptr] raw_copy_bulk_ok [OF bulk]
    using assms(8) by (auto simp: finish_def half LooksLikeCorruptBGRA_def)
qed

section \<open>The claims\<close>

subsection \<open>C5: one faulting chunk in the chunked copy\<close>

text \<open>
  Claim C5. In the chunked copy of the raw-offset fallback (entered when the bulk copy
  faults), let the copy of chunk \<open>k\<close> fault and the copies of all other chunks
  complete. Then the copy returns whenever \<open>bufferSize\<close> is at most \<open>2^31 - 65536\<close>,
  and whenever it returns: the reported byte count is \<open>bufferSize\<close> minus the length
  of chunk \<open>k\<close> (the total length of the chunks that were copied); every byte of the
  destination inside chunk \<open>k\<close> holds the black pattern \<open>80 10 80 10\<close>; and every
  other byte of the destination below \<open>bufferSize\<close> holds the source byte at the same
  offset.
\<close>

theorem chunked_copy_one_fault:
  fixes k :: nat
  assumes bulk: "copy_stops f src (unat (scast bufferSize :: addr)) \<noteq> None"
    and k: "65536 * int k < sint bufferSize"
    and faults: "chunk_faults f src bufferSize k"
    and others: "\<forall>j. j \<noteq> k \<and> 65536 * int j < sint bufferSize \<longrightarrow> \<not> chunk_faults f src bufferSize j"
  shows "(sint bufferSize \<le> 2 ^ 31 - 65536 \<longrightarrow> raw_copy f src bufferSize s \<noteq> None) \<and>
         (\<forall>bytesCopied s'. raw_copy f src bufferSize s = Some (bytesCopied, s') \<longrightarrow>
            bytesCopied = bufferSize - thisChunk (chunk_pos k) bufferSize \<and>
            (\<forall>i. 0 \<le> i \<and> i < sint bufferSize \<longrightarrow>
               dest s' i =
                 (if 65536 * int k \<le> i \<and>
                     i < 65536 * int k + sint (thisChunk (chunk_pos k) bufferSize)
                  then neutral (i - 65536 * int k) else contents f (src + word_of_int i))))"
proof (intro conjI impI allI)
  let ?s1 = "snd (memcpy f 0 src (scast bufferSize) s)"
  have loop: "raw_copy f src bufferSize s = chunk_loop f src bufferSize 0 0 ?s1"
    by (rule raw_copy_bulk_fault [OF bulk])
  {
    assume range: "sint bufferSize \<le> 2 ^ 31 - 65536"
    from chunk_loop_one_fault [OF range k faults others, of ?s1]
    show "raw_copy f src bufferSize s \<noteq> None"
      unfolding loop by auto
  }
  {
    fix bytesCopied s' i
    assume run: "raw_copy f src bufferSize s = Some (bytesCopied, s')"
    then have "65536 dvd sint (0 :: int32) \<longrightarrow> sint bufferSize \<le> 2 ^ 31 - 65536"
      unfolding loop by (rule chunk_loop_returns_only_in_range)
    then have range: "sint bufferSize \<le> 2 ^ 31 - 65536" by simp
    from chunk_loop_one_fault [OF range k faults others, of ?s1] run
    have r: "bytesCopied = bufferSize - thisChunk (chunk_pos k) bufferSize \<and>
        (\<forall>i. 0 \<le> i \<and> i < sint bufferSize \<longrightarrow>
           dest s' i =
             (if 65536 * int k \<le> i \<and>
                 i < 65536 * int k + sint (thisChunk (chunk_pos k) bufferSize)
              then neutral (i - 65536 * int k) else contents f (src + word_of_int i)))"
      unfolding loop by auto
    from r show "bytesCopied = bufferSize - thisChunk (chunk_pos k) bufferSize" by simp
    assume "0 \<le> i \<and> i < sint bufferSize"
    with r show "dest s' i =
             (if 65536 * int k \<le> i \<and>
                 i < 65536 * int k + sint (thisChunk (chunk_pos k) bufferSize)
              then neutral (i - 65536 * int k) else contents f (src + word_of_int i))"
      by blast
  }
qed

theorem chunked_copy_one_fault_witness:
  "map_option fst (raw_copy frame_chunk1 0x20000 131078 s0) = Some 65542 \<and>
   map_option (\<lambda>r. dest (snd r) 65535) (raw_copy frame_chunk1 0x20000 131078 s0) = Some 0x55 \<and>
   map_option (\<lambda>r. dest (snd r) 65536) (raw_copy frame_chunk1 0x20000 131078 s0) = Some 0x80 \<and>
   map_option (\<lambda>r. dest (snd r) 131071) (raw_copy frame_chunk1 0x20000 131078 s0) = Some 0x10 \<and>
   map_option (\<lambda>r. dest (snd r) 131077) (raw_copy frame_chunk1 0x20000 131078 s0) = Some 0x55"
proof -
  have bulk: "copy_stops frame_chunk1 0x20000 (unat (scast (131078 :: int32) :: addr)) \<noteq> None"
    by (simp add: frame_chunk1_def frame0_def)
  have k: "65536 * int 1 < sint (131078 :: int32)" by simp
  have tc: "thisChunk 0 131078 = 65536" "thisChunk 65536 131078 = 65536" "thisChunk 131072 131078 = 6"
    by (simp_all add: thisChunk_def chunkSize_def)
  have cp: "chunk_pos 0 = 0" "chunk_pos 1 = 65536" "chunk_pos 2 = 131072" "chunk_pos (Suc 0) = 65536"
    by (simp_all add: chunk_pos_def chunkSize_def)
  have faults: "chunk_faults frame_chunk1 0x20000 131078 1"
    by (simp add: chunk_faults_def cp tc frame_chunk1_def frame0_def)
  have others: "\<forall>j. j \<noteq> 1 \<and> 65536 * int j < sint (131078 :: int32) \<longrightarrow>
      \<not> chunk_faults frame_chunk1 0x20000 131078 j"
  proof (intro allI impI)
    fix j :: nat
    assume "j \<noteq> 1 \<and> 65536 * int j < sint (131078 :: int32)"
    then have "j = 0 \<or> j = 2" by auto
    then show "\<not> chunk_faults frame_chunk1 0x20000 131078 j"
      by (auto simp: chunk_faults_def cp tc frame_chunk1_def frame0_def)
  qed
  note t = chunked_copy_one_fault [OF bulk k faults others, of s0]
  from t obtain r where r: "raw_copy frame_chunk1 0x20000 131078 s0 = Some r"
    by auto
  obtain bc s' where rs: "r = (bc, s')" by (cases r)
  from t r rs have
    bc: "bc = 131078 - thisChunk (chunk_pos 1) 131078" and
    d: "\<And>i. 0 \<le> i \<Longrightarrow> i < 131078 \<Longrightarrow> dest s' i =
          (if 65536 * int 1 \<le> i \<and> i < 65536 * int 1 + sint (thisChunk (chunk_pos 1) 131078)
           then neutral (i - 65536 * int 1) else contents frame_chunk1 (0x20000 + word_of_int i))"
    by auto
  have v: "bc = 65542" "dest s' 65535 = 0x55" "dest s' 65536 = 0x80"
      "dest s' 131071 = 0x10" "dest s' 131077 = 0x55"
    using bc d [of 65535] d [of 65536] d [of 131071] d [of 131077]
    by (simp_all add: cp tc neutral_def frame_chunk1_def frame0_def)
  show ?thesis
    by (simp add: r rs v)
qed

subsection \<open>C6: an implausible pointer\<close>

text \<open>
  Claim C6. If the pointer read at offset 280 is null or lies outside the range
  \<open>0x10000 ..< 0x7FFF00000000\<close>, the raw-offset fallback returns 0 and the state it
  leaves is the state it was entered with plus the events AddRef, ReadOffset280 and
  Release: no byte of the destination is stored to. A call of
  \<open>CopyDeckLinkFrameBytes\<close> that reaches the fallback then returns 0, and its final
  state is the state at the entry of the fallback plus these three events.
\<close>

theorem fallback_rejects_implausible_pointer:
  assumes "offset280 f = 0 \<or> offset280 f < 0x10000 \<or> 0x7FFF00000000 \<le> offset280 f"
  shows "RawOffsetFallback f bufferSize width height rowBytes s =
           Inr (0, s\<lparr>events := events s @ [AddRef, ReadOffset280, Release]\<rparr>) \<and>
         (\<forall>r s'. CopyDeckLinkFrameBytes f framePtr buffer bufferSize s = Inr (r, s') \<and>
                  ReadOffset280 \<in> set (new_events s s') \<longrightarrow>
            r = 0 \<and>
            (\<exists>sm E. advances s E sm \<and>
               s' = sm\<lparr>events := events sm @ [AddRef, ReadOffset280, Release]\<rparr>))"
proof (rule conjI)
  have bad: "offset280 f < 0x10000 \<or> 0x7FFF00000000 \<le> offset280 f"
    using assms by auto
  show "RawOffsetFallback f bufferSize width height rowBytes s =
           Inr (0, s\<lparr>events := events s @ [AddRef, ReadOffset280, Release]\<rparr>)"
    by (rule RawOffsetFallback_rejects [OF bad])
  show "\<forall>r s'. CopyDeckLinkFrameBytes f framePtr buffer bufferSize s = Inr (r, s') \<and>
                  ReadOffset280 \<in> set (new_events s s') \<longrightarrow>
            r = 0 \<and>
            (\<exists>sm E. advances s E sm \<and>
               s' = sm\<lparr>events := events sm @ [AddRef, ReadOffset280, Release]\<rparr>)"
  proof (intro allI impI)
  fix r s'
  assume a: "CopyDeckLinkFrameBytes f framePtr buffer bufferSize s = Inr (r, s') \<and>
             ReadOffset280 \<in> set (new_events s s')"
  then have run: "CopyDeckLinkFrameBytes f framePtr buffer bufferSize s = Inr (r, s')"
    and reached: "ReadOffset280 \<in> set (new_events s s')" by simp_all
  from CopyDeckLinkFrameBytes_structure [OF run]
  show "r = 0 \<and>
            (\<exists>sm E. advances s E sm \<and>
               s' = sm\<lparr>events := events sm @ [AddRef, ReadOffset280, Release]\<rparr>)"
  proof (elim disjE exE conjE)
    fix t
    assume "Inr (r, s') = Inr (0, t)" "advances s {} t"
    then have "advances s {} s'" by simp
    from advances_no_fallback(1) [OF this] reached show ?thesis by simp
  next
    fix w h rb t
    assume "Inr (r, s') = Inr (1, t)"
      "advances s {0 ..< uint (scast (copySize bufferSize rb h) :: addr)} t"
    then have "advances s {0 ..< uint (scast (copySize bufferSize rb h) :: addr)} s'" by simp
    from advances_no_fallback(1) [OF this] reached show ?thesis by simp
  next
    fix w h rb sm
    assume x: "Inr (r, s') = RawOffsetFallback f bufferSize w h rb sm"
      and adv: "advances s {0 ..< uint (scast (copySize bufferSize rb h) :: addr)} sm"
    have "Inr (r, s') = Inr (0, sm\<lparr>events := events sm @ [AddRef, ReadOffset280, Release]\<rparr>)"
      using x RawOffsetFallback_rejects [OF bad, of bufferSize w h rb sm] by simp
    then have "r = 0" "s' = sm\<lparr>events := events sm @ [AddRef, ReadOffset280, Release]\<rparr>"
      by simp_all
    with adv show ?thesis by blast
  qed
  qed
qed

theorem fallback_rejects_implausible_pointer_witness:
  "RawOffsetFallback frame_null 16 1920 1080 3840 s0 =
     Inr (0, s0\<lparr>events := events s0 @ [AddRef, ReadOffset280, Release]\<rparr>) \<and>
   RawOffsetFallback frame_low 16 1920 1080 3840 s0 =
     Inr (0, s0\<lparr>events := events s0 @ [AddRef, ReadOffset280, Release]\<rparr>) \<and>
   dest (s0\<lparr>events := events s0 @ [AddRef, ReadOffset280, Release]\<rparr>) = dest s0 \<and>
   stored (s0\<lparr>events := events s0 @ [AddRef, ReadOffset280, Release]\<rparr>) = stored s0"
proof -
  have 1: "offset280 frame_null = 0 \<or> offset280 frame_null < 0x10000 \<or>
           0x7FFF00000000 \<le> offset280 frame_null"
    by (simp add: frame_null_def frame0_def)
  have 2: "offset280 frame_low = 0 \<or> offset280 frame_low < 0x10000 \<or>
           0x7FFF00000000 \<le> offset280 frame_low"
    by (simp add: frame_low_def frame0_def)
  show ?thesis
    using fallback_rejects_implausible_pointer [OF 1, of 16 1920 1080 3840 s0]
      fallback_rejects_implausible_pointer [OF 2, of 16 1920 1080 3840 s0]
    by simp
qed

subsection \<open>C9: the temporary reference of the fallback\<close>

text \<open>
  Claim C9. Whenever the raw-offset fallback returns, the events it added begin with
  one AddRef and end with one Release, with no other AddRef or Release between them:
  the extra reference is released exactly once, on the null-pointer exit, on the
  range-check exit and on the normal exit alike. A call of \<open>CopyDeckLinkFrameBytes\<close>
  that returns has added as many AddRef as Release events.
\<close>

theorem fallback_releases_its_reference:
  "(RawOffsetFallback f bufferSize width height rowBytes s = Inr (r, s') \<longrightarrow>
      (\<exists>mid. new_events s s' = [AddRef] @ mid @ [Release] \<and>
         AddRef \<notin> set mid \<and> Release \<notin> set mid)) \<and>
   (CopyDeckLinkFrameBytes f framePtr buffer bufferSize s = Inr (r, s') \<longrightarrow>
      count_list (new_events s s') AddRef = count_list (new_events s s') Release)"
proof (intro conjI impI)
  have shape: "\<exists>mid. new_events t t' = [AddRef] @ mid @ [Release] \<and>
                 AddRef \<notin> set mid \<and> Release \<notin> set mid"
    if "RawOffsetFallback f bufferSize w h rb t = Inr (r, t')" for w h rb t t'
    using RawOffsetFallback_structure [OF that]
  proof (elim disjE conjE exE)
    assume "events t' = events t @ [AddRef, ReadOffset280, Release]"
    then have "new_events t t' = [AddRef] @ [ReadOffset280] @ [Release]" by simp
    then show ?thesis by (intro exI [where x = "[ReadOffset280]"]) simp
  next
    assume "events t' = events t @ [AddRef, ReadOffset280, Detector, Release]"
    then have "new_events t t' = [AddRef] @ [ReadOffset280, Detector] @ [Release]" by simp
    then show ?thesis by (intro exI [where x = "[ReadOffset280, Detector]"]) simp
  qed
  {
    assume "RawOffsetFallback f bufferSize width height rowBytes s = Inr (r, s')"
    then show "\<exists>mid. new_events s s' = [AddRef] @ mid @ [Release] \<and>
                 AddRef \<notin> set mid \<and> Release \<notin> set mid"
      by (rule shape)
  }
  {
    assume run: "CopyDeckLinkFrameBytes f framePtr buffer bufferSize s = Inr (r, s')"
    have quiet_count: "count_list (new_events s t) AddRef = 0 \<and> count_list (new_events s t) Release = 0"
      if "advances s E t" for E t
      using advances_no_fallback(3,4) [OF that] by (simp add: count_list_0_iff)
    from CopyDeckLinkFrameBytes_structure [OF run]
    show "count_list (new_events s s') AddRef = count_list (new_events s s') Release"
    proof (elim disjE exE conjE)
      fix t
      assume "Inr (r, s') = Inr (0, t)" "advances s {} t"
      then have "advances s {} s'" by simp
      from quiet_count [OF this] show ?thesis by simp
    next
      fix w h rb t
      assume "Inr (r, s') = Inr (1, t)"
        "advances s {0 ..< uint (scast (copySize bufferSize rb h) :: addr)} t"
      then have "advances s {0 ..< uint (scast (copySize bufferSize rb h) :: addr)} s'" by simp
      from quiet_count [OF this] show ?thesis by simp
    next
      fix w h rb sm
      assume x: "Inr (r, s') = RawOffsetFallback f bufferSize w h rb sm"
        and adv: "advances s {0 ..< uint (scast (copySize bufferSize rb h) :: addr)} sm"
      from shape [OF x [symmetric]] obtain mid where
        mid: "new_events sm s' = [AddRef] @ mid @ [Release]"
          "AddRef \<notin> set mid" "Release \<notin> set mid" by blast
      have "events s' = events sm @ ([AddRef] @ mid @ [Release])"
        using RawOffsetFallback_structure [OF x [symmetric]] mid(1)
        by (elim disjE conjE exE) simp_all
      from new_events_after [OF adv this]
      have "new_events s s' = new_events s sm @ [AddRef] @ mid @ [Release]" by simp
      with quiet_count [OF adv] mid(2,3) show ?thesis
        by (simp add: count_list_0_iff)
    qed
  }
qed

theorem fallback_releases_its_reference_witness:
  "(\<exists>mid. new_events s0 (s0\<lparr>events := events s0 @ [AddRef, ReadOffset280, Release]\<rparr>) =
           [AddRef] @ mid @ [Release] \<and> AddRef \<notin> set mid \<and> Release \<notin> set mid) \<and>
   (\<exists>r s' mid. RawOffsetFallback frame0 16 1920 1080 3840 s0 = Inr (r, s') \<and> r \<noteq> 0 \<and>
      new_events s0 s' = [AddRef] @ mid @ [Release] \<and> AddRef \<notin> set mid \<and> Release \<notin> set mid) \<and>
   (\<exists>r s'. CopyDeckLinkFrameBytes frame0 0x1000 0x2000 16 s0 = Inr (r, s') \<and>
      count_list (new_events s0 s') AddRef = count_list (new_events s0 s') Release)"
proof (intro conjI)
  have null: "RawOffsetFallback frame_null 16 1920 1080 3840 s0 =
      Inr (0, s0\<lparr>events := events s0 @ [AddRef, ReadOffset280, Release]\<rparr>)"
    by (rule RawOffsetFallback_rejects) (simp add: frame_null_def frame0_def)
  from fallback_releases_its_reference [THEN conjunct1, rule_format, OF null]
  show "\<exists>mid. new_events s0 (s0\<lparr>events := events s0 @ [AddRef, ReadOffset280, Release]\<rparr>) =
           [AddRef] @ mid @ [Release] \<and> AddRef \<notin> set mid \<and> Release \<notin> set mid" .
  have ok: "\<exists>r s'. RawOffsetFallback frame0 16 1920 1080 3840 s = Inr (r, s') \<and> r \<noteq> 0 \<and>
           events s' = events s @ [AddRef, ReadOffset280, Detector, Release] \<and>
           stored s' = stored s \<union> {0 ..< sint (16 :: int32)} \<and>
           probed s' = probed s \<union> sample_reads 1920 1080 3840" for s
    by (rule RawOffsetFallback_complete) (simp_all add: frame0_def unat_scast_nonneg word_sless_alt)
  from ok [of s0] obtain r s' where
    run: "RawOffsetFallback frame0 16 1920 1080 3840 s0 = Inr (r, s')" and r: "r \<noteq> 0"
    by blast
  from fallback_releases_its_reference [THEN conjunct1, rule_format, OF run] run r
  show "\<exists>r s' mid. RawOffsetFallback frame0 16 1920 1080 3840 s0 = Inr (r, s') \<and> r \<noteq> 0 \<and>
      new_events s0 s' = [AddRef] @ mid @ [Release] \<and> AddRef \<notin> set mid \<and> Release \<notin> set mid"
    by blast
  have call: "CopyDeckLinkFrameBytes frame0 0x1000 0x2000 16 s0 =
      RawOffsetFallback frame0 16 1920 1080 3840
        (s0\<lparr>events := events s0 @
                [QI IID_IUnknown, ReleaseInterface IID_IUnknown, QI IID_IDeckLinkVideoFrame,
                 QI IID_IDeckLinkVideoInputFrame, GetWidth, GetHeight, GetRowBytes,
                 GetPixelFormat, QI IID_IDeckLinkVideoBuffer,
                 QI IID_IDeckLinkVideoInputFrame_v14_2_1]\<rparr>)"
    by (rule CopyDeckLinkFrameBytes_no_interfaces [where pixelFormat = "0x32767579"])
       (simp_all add: frame0_def word_sless_alt)
  from ok obtain r2 s2 where "CopyDeckLinkFrameBytes frame0 0x1000 0x2000 16 s0 = Inr (r2, s2)"
    unfolding call by blast
  from fallback_releases_its_reference [THEN conjunct2, rule_format, OF this] this
  show "\<exists>r s'. CopyDeckLinkFrameBytes frame0 0x1000 0x2000 16 s0 = Inr (r, s') \<and>
      count_list (new_events s0 s') AddRef = count_list (new_events s0 s') Release"
    by blast
qed

subsection \<open>C8: a fault while reading the frame information\<close>

text \<open>The claim as stated fails: with a fault in \<open>GetHeight\<close> the call returns 0 and the
  width cell already holds the frame's width.\<close>

theorem frame_info_partial_counterexample:
  "GetDeckLinkFrameInfo frame_height_faults 0x1000 outputs0 =
     (0, outputs0\<lparr>width_out := Some 1920\<rparr>) \<and>
   width_out (outputs0\<lparr>width_out := Some 1920\<rparr>) \<noteq> width_out outputs0"
  by (simp add: GetDeckLinkFrameInfo_def fetch_def frame_height_faults_def frame0_def outputs0_def)

text \<open>
  Claim C8, as amended. For a non-null \<open>framePtr\<close>, \<open>GetDeckLinkFrameInfo\<close> always
  returns (no fault leaves it). An accessor is called when its output pointer is not
  null. The call returns 0 when a called accessor faults and 1 otherwise. Afterwards a
  null output is still null; a non-null output holds the frame's value when its accessor
  was called and returned, that is when neither it nor an accessor called before it
  faulted, and is unmodified otherwise. So on a fault the outputs assigned before it
  keep the frame's values and the outputs from the faulting accessor on are unmodified.
\<close>

theorem frame_info_partial:
  assumes "framePtr \<noteq> 0"
  shows "GetDeckLinkFrameInfo f framePtr out =
     (let fw = accessor_faults (width_out out) (getWidth f);
          fh = accessor_faults (height_out out) (getHeight f);
          fr = accessor_faults (rowBytes_out out) (getRowBytes f);
          fg = accessor_faults (flags_out out) (getFlags f)
      in (if fw \<or> fh \<or> fr \<or> fg then 0 else 1,
          \<lparr>width_out = (if width_out out = None \<or> fw then width_out out else getWidth f),
           height_out = (if height_out out = None \<or> fw \<or> fh
                         then height_out out else getHeight f),
           rowBytes_out = (if rowBytes_out out = None \<or> fw \<or> fh \<or> fr
                           then rowBytes_out out else getRowBytes f),
           flags_out = (if flags_out out = None \<or> fw \<or> fh \<or> fr \<or> fg
                        then flags_out out else getFlags f)\<rparr>))"
proof -
  obtain cw ch cr cg where
    out: "out = \<lparr>width_out = cw, height_out = ch, rowBytes_out = cr, flags_out = cg\<rparr>"
    by (cases out) simp
  show ?thesis
    unfolding out using assms
    by (cases cw; cases ch; cases cr; cases cg;
        cases "getWidth f"; cases "getHeight f"; cases "getRowBytes f"; cases "getFlags f";
        simp add: GetDeckLinkFrameInfo_def fetch_def accessor_faults_def)
qed

theorem frame_info_partial_witness:
  "GetDeckLinkFrameInfo frame0 0x1000 outputs0 =
     (1, \<lparr>width_out = Some 1920, height_out = Some 1080,
          rowBytes_out = Some 3840, flags_out = Some 0\<rparr>) \<and>
   GetDeckLinkFrameInfo (frame0\<lparr>getRowBytes := None\<rparr>) 0x1000 (outputs0\<lparr>height_out := None\<rparr>) =
     (0, \<lparr>width_out = Some 1920, height_out = None,
          rowBytes_out = Some 0, flags_out = Some 0\<rparr>) \<and>
   GetDeckLinkFrameInfo (frame0\<lparr>getWidth := None\<rparr>) 0x1000 (outputs0\<lparr>width_out := None\<rparr>) =
     (1, \<lparr>width_out = None, height_out = Some 1080,
          rowBytes_out = Some 3840, flags_out = Some 0\<rparr>)"
proof -
  have h: "(0x1000 :: addr) \<noteq> 0" by simp
  show ?thesis
    using frame_info_partial [OF h, of frame0 outputs0]
      frame_info_partial [OF h, of "frame0\<lparr>getRowBytes := None\<rparr>" "outputs0\<lparr>height_out := None\<rparr>"]
      frame_info_partial [OF h, of "frame0\<lparr>getWidth := None\<rparr>" "outputs0\<lparr>width_out := None\<rparr>"]
    by (simp add: frame0_def outputs0_def accessor_faults_def)
qed

subsection \<open>C3: EndAccess after a successful StartAccess\<close>

text \<open>
  Claim C3 at the failing input: IDeckLinkVideoBuffer is offered, \<open>StartAccess\<close> and
  \<open>GetBytes\<close> succeed and the copy faults. The call returns 0 and its events hold
  one StartAccess and no EndAccess: the handler of the \<open>__try\<close> block is entered with
  \<open>endAccess\<close> (line 279) skipped.
\<close>

theorem end_access_skipped_when_copy_faults:
  "result_of (CopyDeckLinkFrameBytes frame_copy_faults 0x1000 0x2000 16 s0) = Some 0 \<and>
   map_option events (state_of (CopyDeckLinkFrameBytes frame_copy_faults 0x1000 0x2000 16 s0)) =
     Some [QI IID_IUnknown, ReleaseInterface IID_IUnknown, QI IID_IDeckLinkVideoFrame,
           QI IID_IDeckLinkVideoInputFrame, GetWidth, GetHeight, GetRowBytes, GetPixelFormat,
           QI IID_IDeckLinkVideoBuffer, StartAccess, GetBytes,
           ReleaseInterface IID_IDeckLinkVideoBuffer, QI IID_IDeckLinkVideoInputFrame_v14_2_1,
           AddRef, ReadOffset280, Release]"
  by (simp add: CopyDeckLinkFrameBytes_def LegacyThenFallback_def RawOffsetFallback_def
        video_buffer_access_def probe_def read_geometry_def memcpy_def emit_def Let_def
        frame_copy_faults_def frame0_def s0_def result_of_def state_of_def copySize_def
        word_sle_eq word_sless_alt)

subsection \<open>C4: StartAccess fails and no legacy interface\<close>

text \<open>The claim as stated fails: on a frame that offers only IDeckLinkVideoBuffer and whose
  \<open>StartAccess\<close> returns \<open>E_FAIL\<close>, the call reads the pointer at offset 280 and does
  not return 0.\<close>

theorem start_access_failure_reaches_fallback_counterexample:
  "result_of (CopyDeckLinkFrameBytes frame_modern_only 0x1000 0x2000 16 s0) \<noteq> None \<and>
   result_of (CopyDeckLinkFrameBytes frame_modern_only 0x1000 0x2000 16 s0) \<noteq> Some 0 \<and>
   map_option (\<lambda>s'. ReadOffset280 \<in> set (events s'))
     (state_of (CopyDeckLinkFrameBytes frame_modern_only 0x1000 0x2000 16 s0)) = Some True \<and>
   startAccess frame_modern_only = Some 0x80004005 \<and>
   QueryInterface frame_modern_only IID_IDeckLinkVideoBuffer = (0, 0x1000) \<and>
   QueryInterface frame_modern_only IID_IDeckLinkVideoInputFrame_v14_2_1 = (0x80004002, 0)"
proof -
  from modern_only_run obtain r s' where
    "CopyDeckLinkFrameBytes frame_modern_only 0x1000 0x2000 16 s0 = Inr (r, s')" "r \<noteq> 0"
    "ReadOffset280 \<in> set (events s')" by blast
  then show ?thesis
    by (simp add: result_of_def state_of_def frame_modern_only_def frame0_def)
qed

text \<open>
  Claim C4, as amended. Take a call with non-null pointers and a positive \<open>bufferSize\<close>
  on a frame that answers the IUnknown query and the four geometry accessors, offers
  IDeckLinkVideoBuffer, does not offer the legacy v14.2.1 interface, and whose
  \<open>StartAccess\<close> faults or returns a failure. Then the call is the raw-offset fallback
  entered in a state in which nothing was stored to the destination: it returns what
  the fallback returns, and every returning call has read the pointer at offset 280.
\<close>

theorem start_access_failure_reaches_fallback:
  assumes args: "framePtr \<noteq> 0" "buffer \<noteq> 0" "0 <s bufferSize"
    and unk: "QueryInterface f IID_IUnknown = (hrTest, testUnk)" "\<not> FAILED hrTest" "testUnk \<noteq> 0"
    and geo: "getWidth f = Some width" "getHeight f = Some height" "getRowBytes f = Some rowBytes"
      "getPixelFormat f = Some pixelFormat"
    and modern: "QueryInterface f IID_IDeckLinkVideoBuffer = (hr, videoBuffer)"
      "SUCCEEDED hr" "videoBuffer \<noteq> 0"
    and start: "\<forall>hrStart. startAccess f = Some hrStart \<longrightarrow> \<not> SUCCEEDED hrStart"
    and legacy: "QueryInterface f IID_IDeckLinkVideoInputFrame_v14_2_1 = (hrLegacy, legacyFrame)"
      "\<not> (SUCCEEDED hrLegacy \<and> legacyFrame \<noteq> 0)"
  shows "(\<exists>sm. CopyDeckLinkFrameBytes f framePtr buffer bufferSize s =
                 RawOffsetFallback f bufferSize width height rowBytes sm \<and>
               advances s {} sm \<and> dest sm = dest s) \<and>
         (\<forall>r s'. CopyDeckLinkFrameBytes f framePtr buffer bufferSize s = Inr (r, s') \<longrightarrow>
            ReadOffset280 \<in> set (new_events s s'))"
proof -
  define sm where "sm =
     emit (QI IID_IDeckLinkVideoInputFrame_v14_2_1)
       (emit (ReleaseInterface IID_IDeckLinkVideoBuffer)
         (emit StartAccess
           (emit (QI IID_IDeckLinkVideoBuffer)
             (emit GetPixelFormat (emit GetRowBytes (emit GetHeight (emit GetWidth
               (probe f IID_IDeckLinkVideoInputFrame
                 (probe f IID_IDeckLinkVideoFrame
                   (emit (ReleaseInterface IID_IUnknown)
                     (emit (QI IID_IUnknown) s)))))))))))"
  have run: "CopyDeckLinkFrameBytes f framePtr buffer bufferSize s =
      RawOffsetFallback f bufferSize width height rowBytes sm"
    unfolding sm_def by (rule start_access_failure_run [OF assms])
  have adv: "advances s {} sm" and d: "dest sm = dest s"
    unfolding sm_def by (simp_all add: advances_def probe_def Let_def)
  have reach: "ReadOffset280 \<in> set (new_events s s')"
    if "CopyDeckLinkFrameBytes f framePtr buffer bufferSize s = Inr (r, s')" for r s'
  proof -
    from that have x: "RawOffsetFallback f bufferSize width height rowBytes sm = Inr (r, s')"
      by (simp add: run)
    have "\<exists>es. events s' = events sm @ es \<and> ReadOffset280 \<in> set es"
      using RawOffsetFallback_structure [OF x] by (elim disjE conjE exE) simp_all
    then obtain es where es: "events s' = events sm @ es" "ReadOffset280 \<in> set es" by blast
    from new_events_after [OF adv es(1)] es(2) show ?thesis by simp
  qed
  from run adv d reach show ?thesis by blast
qed

theorem start_access_failure_reaches_fallback_witness:
  "(\<exists>sm. CopyDeckLinkFrameBytes frame_modern_only 0x1000 0x2000 16 s0 =
            RawOffsetFallback frame_modern_only 16 1920 1080 3840 sm \<and>
          advances s0 {} sm \<and> dest sm = dest s0) \<and>
   (\<exists>r s'. CopyDeckLinkFrameBytes frame_modern_only 0x1000 0x2000 16 s0 = Inr (r, s') \<and>
      ReadOffset280 \<in> set (new_events s0 s'))"
proof -
  have t: "(\<exists>sm. CopyDeckLinkFrameBytes frame_modern_only 0x1000 0x2000 16 s0 =
                 RawOffsetFallback frame_modern_only 16 1920 1080 3840 sm \<and>
               advances s0 {} sm \<and> dest sm = dest s0) \<and>
         (\<forall>r s'. CopyDeckLinkFrameBytes frame_modern_only 0x1000 0x2000 16 s0 = Inr (r, s') \<longrightarrow>
            ReadOffset280 \<in> set (new_events s0 s'))"
    by (rule start_access_failure_reaches_fallback
          [where hrTest = 0 and testUnk = "0x1000" and pixelFormat = "0x32767579" and hr = 0
             and videoBuffer = "0x1000" and hrLegacy = "0x80004002"
             and legacyFrame = 0])
       (simp_all add: frame_modern_only_def frame0_def word_sless_alt)
  from modern_only_run obtain r s' where
    "CopyDeckLinkFrameBytes frame_modern_only 0x1000 0x2000 16 s0 = Inr (r, s')" by blast
  with t show ?thesis by blast
qed

subsection \<open>C7: how many bytes the fallback must have copied\<close>

text \<open>The claim as stated fails for a call that copied exactly half: with \<open>bufferSize\<close>
  131072 and 65536 bytes copied, the fallback returns 0 and the detector is not run.\<close>

theorem detector_runs_above_half_counterexample:
  "map_option fst (raw_copy frame_half 0x20000 131072 (emit ReadOffset280 (emit AddRef s0))) =
     Some 65536 \<and>
   c_div 131072 2 = 65536 \<and>
   result_of (RawOffsetFallback frame_half 131072 1920 1080 3840 s0) = Some 0 \<and>
   map_option events (state_of (RawOffsetFallback frame_half 131072 1920 1080 3840 s0)) =
     Some [AddRef, ReadOffset280, Release] \<and>
   result_of (CopyDeckLinkFrameBytes frame_half 0x1000 0x2000 131072 s0) = Some 0 \<and>
   map_option (\<lambda>s'. Detector \<in> set (events s'))
     (state_of (CopyDeckLinkFrameBytes frame_half 0x1000 0x2000 131072 s0)) = Some False"
proof -
  from frame_half_fallback [of s0 1920 1080 3840] obtain s3 where
    c: "raw_copy frame_half 0x20000 131072 (emit ReadOffset280 (emit AddRef s0)) = Some (65536, s3)"
    and r: "RawOffsetFallback frame_half 131072 1920 1080 3840 s0 = Inr (0, emit Release s3)"
    and e: "events (emit Release s3) = events s0 @ [AddRef, ReadOffset280, Release]"
    by blast
  define s6 where "s6 = s0\<lparr>events := events s0 @
                [QI IID_IUnknown, ReleaseInterface IID_IUnknown, QI IID_IDeckLinkVideoFrame,
                 QI IID_IDeckLinkVideoInputFrame, GetWidth, GetHeight, GetRowBytes,
                 GetPixelFormat, QI IID_IDeckLinkVideoBuffer,
                 QI IID_IDeckLinkVideoInputFrame_v14_2_1]\<rparr>"
  have call: "CopyDeckLinkFrameBytes frame_half 0x1000 0x2000 131072 s0 =
      RawOffsetFallback frame_half 131072 1920 1080 3840 s6"
    unfolding s6_def
    by (rule CopyDeckLinkFrameBytes_no_interfaces [where pixelFormat = "0x32767579"])
       (simp_all add: frame_half_def frame0_def word_sless_alt)
  from frame_half_fallback [of s6 1920 1080 3840] obtain t3 where
    r2: "RawOffsetFallback frame_half 131072 1920 1080 3840 s6 = Inr (0, emit Release t3)"
    and e2: "events (emit Release t3) = events s6 @ [AddRef, ReadOffset280, Release]"
    by blast
  have e6: "events s6 = [QI IID_IUnknown, ReleaseInterface IID_IUnknown, QI IID_IDeckLinkVideoFrame,
                 QI IID_IDeckLinkVideoInputFrame, GetWidth, GetHeight, GetRowBytes,
                 GetPixelFormat, QI IID_IDeckLinkVideoBuffer,
                 QI IID_IDeckLinkVideoInputFrame_v14_2_1]"
    by (simp add: s6_def s0_def)
  have e0: "events s0 = []" by (simp add: s0_def)
  show ?thesis
    unfolding call r r2 c
    by (simp add: result_of_def state_of_def half_131072 e e2 e6 e0 del: emit_fields)
qed

text \<open>
  Claim C7, as amended. Let the raw-offset fallback (lines 359-569, the tail of the
  call) be entered with a plausible pointer and a positive \<open>bufferSize\<close>, and let its
  copy phase return with \<open>bytesCopied\<close> bytes copied. If \<open>bytesCopied\<close> is at most
  \<open>bufferSize / 2\<close> (integer division; exactly half included), the fallback returns 0
  whatever the buffer holds, and the detector is not run. If \<open>bytesCopied\<close> is more
  than \<open>bufferSize / 2\<close>, the detector is run on the copied buffer: the fallback
  returns -1 or 1 by its verdict, or does not return when the detector divides by
  zero.
\<close>

theorem detector_runs_above_half:
  assumes ptr: "\<not> (offset280 f < 0x10000 \<or> 0x7FFF00000000 \<le> offset280 f)"
    and size: "0 <s bufferSize"
    and copy: "raw_copy f (offset280 f) bufferSize (emit ReadOffset280 (emit AddRef s)) =
                 Some (bytesCopied, s3)"
  shows "(sint bytesCopied \<le> sint bufferSize div 2 \<longrightarrow>
            RawOffsetFallback f bufferSize width height rowBytes s = Inr (0, emit Release s3) \<and>
            new_events s (emit Release s3) = [AddRef, ReadOffset280, Release]) \<and>
         (sint bufferSize div 2 < sint bytesCopied \<longrightarrow>
            (case LooksLikeCorruptBGRA (dest s3) width height rowBytes of
               None \<Rightarrow>
                 RawOffsetFallback f bufferSize width height rowBytes s = Inl DivideByZero
             | Some v \<Rightarrow>
                 (\<exists>s'. RawOffsetFallback f bufferSize width height rowBytes s =
                         Inr (if v then - 1 else 1, s') \<and>
                       new_events s s' = [AddRef, ReadOffset280, Detector, Release] \<and>
                       dest s' = dest s3)))"
proof -
  have run: "RawOffsetFallback f bufferSize width height rowBytes s =
      finish bufferSize width height rowBytes bytesCopied s3"
    unfolding RawOffsetFallback_copies [OF ptr] copy by simp
  have e3: "events s3 = events s @ [AddRef, ReadOffset280]"
    using raw_copy_quiet [OF copy] by simp
  have half: "c_div bufferSize 2 <s bytesCopied \<longleftrightarrow> sint bufferSize div 2 < sint bytesCopied"
    by (simp add: word_sless_alt sint_half [OF size])
  show ?thesis
  proof (intro conjI impI)
    assume le: "sint bytesCopied \<le> sint bufferSize div 2"
    then show "RawOffsetFallback f bufferSize width height rowBytes s = Inr (0, emit Release s3)"
      unfolding run by (simp add: finish_def half)
    have "events (emit Release s3) = events s @ [AddRef, ReadOffset280, Release]"
      using e3 by simp
    then show "new_events s (emit Release s3) = [AddRef, ReadOffset280, Release]"
      by (rule new_events_append)
  next
    assume gt: "sint bufferSize div 2 < sint bytesCopied"
    show "case LooksLikeCorruptBGRA (dest s3) width height rowBytes of
               None \<Rightarrow>
                 RawOffsetFallback f bufferSize width height rowBytes s = Inl DivideByZero
             | Some v \<Rightarrow>
                 (\<exists>s'. RawOffsetFallback f bufferSize width height rowBytes s =
                         Inr (if v then - 1 else 1, s') \<and>
                       new_events s s' = [AddRef, ReadOffset280, Detector, Release] \<and>
                       dest s' = dest s3)"
    proof (cases "LooksLikeCorruptBGRA (dest s3) width height rowBytes")
      case None
      with gt show ?thesis unfolding run by (simp add: finish_def half)
    next
      case (Some v)
      define s' where "s' = emit Release ((emit Detector s3)
                  \<lparr>probed := probed s3 \<union> sample_reads width height rowBytes\<rparr>)"
      have "finish bufferSize width height rowBytes bytesCopied s3 = Inr (if v then - 1 else 1, s')"
        using gt Some by (simp add: finish_def half s'_def)
      moreover have "events s' = events s @ [AddRef, ReadOffset280, Detector, Release]"
        using e3 by (simp add: s'_def)
      then have "new_events s s' = [AddRef, ReadOffset280, Detector, Release]"
        by (rule new_events_append)
      moreover have "dest s' = dest s3" by (simp add: s'_def)
      ultimately show ?thesis
        unfolding run using Some by auto
    qed
  qed
qed

theorem detector_runs_above_half_witness:
  "(\<exists>s3. raw_copy frame_half 0x20000 131072 (emit ReadOffset280 (emit AddRef s0)) =
          Some (65536, s3) \<and>
        RawOffsetFallback frame_half 131072 1920 1080 3840 s0 = Inr (0, emit Release s3) \<and>
        new_events s0 (emit Release s3) = [AddRef, ReadOffset280, Release]) \<and>
   (\<exists>s3 v s'. raw_copy frame0 0x20000 16 (emit ReadOffset280 (emit AddRef s0)) = Some (16, s3) \<and>
        RawOffsetFallback frame0 16 1920 1080 3840 s0 = Inr (if v then - 1 else 1, s') \<and>
        new_events s0 s' = [AddRef, ReadOffset280, Detector, Release] \<and> dest s' = dest s3)"
proof (rule conjI)
  obtain s3 where c: "raw_copy (frame_half) (offset280 frame_half) 131072
      (emit ReadOffset280 (emit AddRef s0)) = Some (65536, s3)"
    using frame_half_copy [of "emit ReadOffset280 (emit AddRef s0)"]
    by (auto simp: frame_half_def frame0_def)
  have ptr: "\<not> (offset280 frame_half < 0x10000 \<or> 0x7FFF00000000 \<le> offset280 frame_half)"
    by (simp add: frame_half_def frame0_def)
  have size: "0 <s (131072 :: int32)" by (simp add: word_sless_alt)
  have o: "offset280 frame_half = 0x20000" by (simp add: frame_half_def frame0_def)
  from detector_runs_above_half [OF ptr size c, of 1920 1080 3840] c
  show "\<exists>s3. raw_copy frame_half 0x20000 131072 (emit ReadOffset280 (emit AddRef s0)) =
          Some (65536, s3) \<and>
        RawOffsetFallback frame_half 131072 1920 1080 3840 s0 = Inr (0, emit Release s3) \<and>
        new_events s0 (emit Release s3) = [AddRef, ReadOffset280, Release]"
    unfolding o by (intro exI [where x = s3]) simp
next
  define s3 where "s3 = snd (memcpy frame0 0 0x20000 (scast (16 :: int32))
                              (emit ReadOffset280 (emit AddRef s0)))"
  have o: "offset280 frame0 = 0x20000" by (simp add: frame0_def)
  have bulk: "copy_stops frame0 0x20000 (unat (scast (16 :: int32) :: addr)) = None"
    by (simp add: frame0_def)
  have c: "raw_copy frame0 (offset280 frame0) 16 (emit ReadOffset280 (emit AddRef s0)) =
      Some (16, s3)"
    unfolding o s3_def by (rule raw_copy_bulk_ok [OF bulk])
  have ptr: "\<not> (offset280 frame0 < 0x10000 \<or> 0x7FFF00000000 \<le> offset280 frame0)"
    by (simp add: frame0_def)
  have size: "0 <s (16 :: int32)" by (simp add: word_sless_alt)
  obtain v where v: "LooksLikeCorruptBGRA (dest s3) 1920 1080 3840 = Some v"
    by (simp add: LooksLikeCorruptBGRA_def)
  from detector_runs_above_half [OF ptr size c, of 1920 1080 3840]
  have "\<exists>s'. RawOffsetFallback frame0 16 1920 1080 3840 s0 = Inr (if v then - 1 else 1, s') \<and>
          new_events s0 s' = [AddRef, ReadOffset280, Detector, Release] \<and> dest s' = dest s3"
    by (simp add: v)
  with c show "\<exists>s3 v s'. raw_copy frame0 0x20000 16 (emit ReadOffset280 (emit AddRef s0)) =
        Some (16, s3) \<and>
        RawOffsetFallback frame0 16 1920 1080 3840 s0 = Inr (if v then - 1 else 1, s') \<and>
        new_events s0 s' = [AddRef, ReadOffset280, Detector, Release] \<and> dest s' = dest s3"
    unfolding o by blast
qed

subsection \<open>C10: accesses to the destination buffer\<close>

text \<open>
  Claim C10 at three failing inputs. With \<open>bufferSize\<close> 6 and every copy faulting, the
  fill loop of the only chunk (6 bytes long) stores to the offsets 0 to 7: the bytes
  at offsets 6 and 7 lie past the buffer and hold \<open>80 10\<close> afterwards. With
  \<open>bufferSize\<close> 16 and a 1920 x 1080 frame whose copy completes, the detector reads
  the offsets \<open>sample_reads 1920 1080 3840\<close>, among them 503376 (sample 1), far
  past the 16 bytes of the buffer. With a width of 2 (the modulo by
  \<open>width * 2 - 4\<close>) or a height of 0 the detector divides by zero and the call does
  not return.
\<close>

theorem destination_accesses_leave_the_buffer:
  "result_of (CopyDeckLinkFrameBytes frame_fill 0x1000 0x2000 6 s0) = Some 0 \<and>
   map_option stored (state_of (CopyDeckLinkFrameBytes frame_fill 0x1000 0x2000 6 s0)) =
     Some {0 ..< 8} \<and>
   map_option (\<lambda>s. (dest s 6, dest s 7)) (state_of (CopyDeckLinkFrameBytes frame_fill 0x1000 0x2000 6 s0)) =
     Some (0x80, 0x10) \<and>
   map_option probed (state_of (CopyDeckLinkFrameBytes frame0 0x1000 0x2000 16 s0)) =
     Some (sample_reads 1920 1080 3840) \<and>
   sint (sample_offset 1920 1080 3840 1) = 503376 \<and>
   503376 \<in> sample_reads 1920 1080 3840 \<and>
   CopyDeckLinkFrameBytes frame_width2 0x1000 0x2000 16 s0 = Inl DivideByZero \<and>
   CopyDeckLinkFrameBytes frame_height0 0x1000 0x2000 16 s0 = Inl DivideByZero"
proof -
  obtain s' where a: "CopyDeckLinkFrameBytes frame_fill 0x1000 0x2000 6 s0 = Inr (0, s')"
    "stored s' = {0 ..< 8}" "dest s' 6 = 0x80" "dest s' 7 = 0x10"
    using frame_fill_run by blast
  obtain r t where b: "CopyDeckLinkFrameBytes frame0 0x1000 0x2000 16 s0 = Inr (r, t)"
    "probed t = sample_reads 1920 1080 3840"
    using frame0_run by blast
  have c: "CopyDeckLinkFrameBytes frame_width2 0x1000 0x2000 16 s0 = Inl DivideByZero"
    by (rule degenerate_geometry_run [where width = 2 and height = 1080 and rowBytes = 3840
          and pixelFormat = "0x32767579"])
       (simp_all add: frame_width2_def frame0_def)
  have d: "CopyDeckLinkFrameBytes frame_height0 0x1000 0x2000 16 s0 = Inl DivideByZero"
    by (rule degenerate_geometry_run [where width = 1920 and height = 0 and rowBytes = 3840
          and pixelFormat = "0x32767579"])
       (simp_all add: frame_height0_def frame0_def)
  have e: "sint (sample_offset 1920 1080 3840 1) = 503376"
    unfolding sample_1_offset by simp
  show ?thesis
    unfolding a(1) b(1) c d
    using e by (simp add: result_of_def state_of_def a b sample_1_read)
qed

end
